theory Spec2Isabelle
  imports Complex_Main "HOL-Library.Word" "HOL-Library.Signed_Division" "HOL-Library.Log_Nat"
begin

section \<open>Machine integers\<close>

text \<open>
  The creature code works on fixed-width integers.  A 32-bit value is a \<open>32 word\<close>;
  where the source declares it \<open>int32_t\<close> it is read with \<open>sint\<close> and compared with
  \<open>\<le>s\<close> and \<open><s\<close>, where it declares it \<open>uint32_t\<close> it is read with \<open>unat\<close> and
  compared with \<open>\<le>\<close> and \<open><\<close>.  Addition and subtraction wrap around.
\<close>

type_synonym int32_t = "32 word"
type_synonym uint32_t = "32 word"
type_synonym uint64_t = "64 word"
type_synonym int64_t = "64 word"

text \<open>C++ division and remainder of signed integers truncate towards zero.\<close>

definition div_i32 :: "int32_t \<Rightarrow> int32_t \<Rightarrow> int32_t" where
  "div_i32 a b = word_of_int (sint a sdiv sint b)"

definition mod_i32 :: "int32_t \<Rightarrow> int32_t \<Rightarrow> int32_t" where
  "mod_i32 a b = word_of_int (sint a smod sint b)"

definition max_i32 :: "int32_t \<Rightarrow> int32_t \<Rightarrow> int32_t" where
  "max_i32 a b = (if a <s b then b else a)"

definition min_i32 :: "int32_t \<Rightarrow> int32_t \<Rightarrow> int32_t" where
  "min_i32 a b = (if b <s a then b else a)"

section \<open>Combat resolution: \<open>Creature::blockHit\<close>\<close>

datatype BlockType_t = BLOCK_NONE | BLOCK_DEFENSE | BLOCK_ARMOR | BLOCK_IMMUNITY

text \<open>The combat types that the creature code names.\<close>

datatype CombatType_t =
    COMBAT_PHYSICALDAMAGE | COMBAT_ENERGYDAMAGE | COMBAT_EARTHDAMAGE | COMBAT_FIREDAMAGE
  | COMBAT_HEALING | COMBAT_DROWNDAMAGE | COMBAT_ICEDAMAGE | COMBAT_HOLYDAMAGE
  | COMBAT_DEATHDAMAGE

text \<open>
  What \<open>blockHit\<close> reads from the creature it is called on.  \<open>blockCount\<close> and
  \<open>canUseDefense\<close> are fields; \<open>isImmune\<close>, \<open>getDefense\<close> and \<open>getArmor\<close> are virtual
  member functions whose results are taken as given.  The two calls of
  \<open>uniform_random\<close> are the functions \<open>randomDefense\<close> and \<open>randomArmor\<close>, from the
  two bounds passed to the value drawn; nothing is assumed about the value drawn.
\<close>

record BlockTarget =
  blockCount :: uint32_t
  canUseDefense :: bool
  isImmune :: "CombatType_t \<Rightarrow> bool"
  getDefense :: int32_t
  getArmor :: int32_t
  randomDefense :: "int32_t \<Rightarrow> int32_t \<Rightarrow> int32_t"
  randomArmor :: "int32_t \<Rightarrow> int32_t \<Rightarrow> int32_t"

text \<open>The attacker, when there is one: all \<open>blockHit\<close> asks is whether its master is a player.\<close>

record Attacker =
  masterIsPlayer :: bool

datatype HitEvent =
    OnBlockHit
  | AttackerOnAttackedCreature
  | AttackerOnAttackedCreatureBlockHit BlockType_t
  | MasterPlayerOnAttackedCreature
  | OnAttacked

record HitResult =
  damage :: int32_t
  blockType :: BlockType_t
  blockCountAfter :: uint32_t
  events :: "HitEvent list"

text \<open>
  The first statement of \<open>blockHit\<close>, the chain \<open>if (isImmune(combatType)) ... else if
  (checkDefense || checkArmor) ...\<close>: the mitigation steps.
\<close>

definition mitigation :: "BlockTarget \<Rightarrow> CombatType_t \<Rightarrow> int32_t \<Rightarrow> bool \<Rightarrow> bool \<Rightarrow> HitResult" where
  "mitigation c combatType dmg checkDefense checkArmor =
    (if isImmune c combatType then
       \<lparr>damage = 0, blockType = BLOCK_IMMUNITY, blockCountAfter = blockCount c, events = []\<rparr>
     else if checkDefense \<or> checkArmor then
       (let hasDefense = (0 < blockCount c);
            bc = (if hasDefense then blockCount c - 1 else blockCount c);
            useDefense = (checkDefense \<and> hasDefense \<and> canUseDefense c);
            d1 = (if useDefense
                  then dmg - randomDefense c (div_i32 (getDefense c) 2) (getDefense c)
                  else dmg);
            defended = (useDefense \<and> d1 \<le>s 0);
            d2 = (if defended then 0 else d1);
            bt2 = (if defended then BLOCK_DEFENSE else BLOCK_NONE);
            checkArmor2 = (if defended then False else checkArmor);
            armor = getArmor c;
            d3 = (if checkArmor2 then
                    (if 3 <s armor
                     then d2 - randomArmor c (div_i32 armor 2) (armor - (mod_i32 armor 2 + 1))
                     else if 0 <s armor then d2 - 1 else d2)
                  else d2);
            armored = (checkArmor2 \<and> d3 \<le>s 0);
            d4 = (if armored then 0 else d3);
            bt4 = (if armored then BLOCK_ARMOR else bt2)
        in \<lparr>damage = d4, blockType = bt4, blockCountAfter = bc,
            events = (if hasDefense \<and> bt4 \<noteq> BLOCK_NONE then [OnBlockHit] else [])\<rparr>)
     else
       \<lparr>damage = dmg, blockType = BLOCK_NONE, blockCountAfter = blockCount c, events = []\<rparr>)"

text \<open>
  The rest of \<open>blockHit\<close>: the final test \<open>if (damage <= 0)\<close>, the notifications of the
  attacker (and of its master when that is a player), and \<open>onAttacked\<close>.
\<close>

definition blockHit ::
  "BlockTarget \<Rightarrow> Attacker option \<Rightarrow> CombatType_t \<Rightarrow> int32_t \<Rightarrow> bool \<Rightarrow> bool \<Rightarrow> HitResult" where
  "blockHit c attacker combatType dmg checkDefense checkArmor =
    (let m = mitigation c combatType dmg checkDefense checkArmor;
         zero = (damage m \<le>s 0);
         d = (if zero then 0 else damage m);
         bt = (if zero then BLOCK_ARMOR else blockType m);
         notify = (case attacker of
                     None \<Rightarrow> []
                   | Some a \<Rightarrow>
                       if combatType \<noteq> COMBAT_HEALING
                       then [AttackerOnAttackedCreature, AttackerOnAttackedCreatureBlockHit bt]
                            @ (if masterIsPlayer a then [MasterPlayerOnAttackedCreature] else [])
                       else [])
     in \<lparr>damage = d, blockType = bt, blockCountAfter = blockCountAfter m,
         events = events m @ notify @ [OnAttacked]\<rparr>)"

text \<open>A creature used in the examples: one defence charge, defence 10, armour 10, immune to
  every combat type or to none.\<close>

definition guarded :: "bool \<Rightarrow> BlockTarget" where
  "guarded immune = \<lparr>blockCount = 1, canUseDefense = True, isImmune = (\<lambda>t. immune),
     getDefense = 10, getArmor = 10,
     randomDefense = (\<lambda>lo hi. hi), randomArmor = (\<lambda>lo hi. lo)\<rparr>"

section \<open>Health: \<open>Creature::changeHealth\<close>\<close>

text \<open>The fields \<open>health\<close> and \<open>healthMax\<close> of a creature, both \<open>int32_t\<close>.\<close>

record HealthState =
  health :: int32_t
  healthMax :: int32_t

text \<open>
  Modelled from the spec: \<open>getMaxHealth\<close> is declared in the creature's header, which is not
  among the sources.  It is the accessor of \<open>healthMax\<close>, the bound that the health of an
  entity is kept under.
\<close>

definition getMaxHealth :: "HealthState \<Rightarrow> int32_t" where
  "getMaxHealth c = healthMax c"

text \<open>
  What \<open>changeHealth\<close> does besides writing \<open>health\<close>: the health update sent through the
  game, and the task that executes the death, put on the dispatcher.
\<close>

datatype HealthEvent = AddCreatureHealth | ExecuteDeathTask

definition changeHealth :: "HealthState \<Rightarrow> int32_t \<Rightarrow> bool \<Rightarrow> HealthState \<times> HealthEvent list" where
  "changeHealth c healthChange sendHealthChange =
    (let oldHealth = health c;
         h = (if 0 <s healthChange
              then health c + min_i32 healthChange (getMaxHealth c - health c)
              else max_i32 0 (health c + healthChange))
     in (c\<lparr>health := h\<rparr>,
         (if sendHealthChange \<and> oldHealth \<noteq> h then [AddCreatureHealth] else [])
         @ (if h \<le>s 0 then [ExecuteDeathTask] else [])))"

section \<open>Experience: \<open>Creature::onGainExperience\<close>\<close>

text \<open>
  Creatures are named by their identifiers.  \<open>getMaster\<close> gives the master of each
  creature, if it has one; nothing is assumed about it, a creature may even be its own
  master.  \<open>hasSpectators\<close> says whether \<open>getSpectators\<close> finds anybody around the creature.
\<close>

type_synonym creature_id = nat

record ExpWorld =
  getMaster :: "creature_id \<Rightarrow> creature_id option"
  hasSpectators :: "creature_id \<Rightarrow> bool"

text \<open>
  What a call does: \<open>GainExperience m e\<close> is the call \<open>getMaster()->onGainExperience(e,
  target)\<close> on the master \<open>m\<close>, and \<open>ExperienceMessage c e\<close> the text message about the
  creature \<open>c\<close> sent to the spectators.  \<open>gainExp\<close> is a \<open>uint64_t\<close>.
\<close>

datatype ExpEvent = GainExperience creature_id uint64_t | ExperienceMessage creature_id uint64_t

function onGainExperience :: "ExpWorld \<Rightarrow> creature_id \<Rightarrow> uint64_t \<Rightarrow> ExpEvent list" where
  "onGainExperience w c gainExp =
    (if gainExp = 0 then []
     else case getMaster w c of
       None \<Rightarrow> []
     | Some m \<Rightarrow>
         GainExperience m (gainExp div 2) # onGainExperience w m (gainExp div 2)
         @ (if hasSpectators w c then [ExperienceMessage c (gainExp div 2)] else []))"
  by pat_completeness auto
termination
  by (relation "measure (\<lambda>(w, c, g). unat g)")
     (auto simp: unat_div unat_gt_0 [symmetric] unat_eq_0)

declare onGainExperience.simps [simp del]

text \<open>The experience handed to masters by a run of calls.\<close>

fun awarded :: "ExpEvent list \<Rightarrow> nat" where
  "awarded [] = 0"
| "awarded (GainExperience m e # evs) = unat e + awarded evs"
| "awarded (ExperienceMessage c e # evs) = awarded evs"

text \<open>A chain of summons: creature \<open>n\<close> has master \<open>n + 1\<close>, up to creature 5.\<close>

definition summonChain :: ExpWorld where
  "summonChain = \<lparr>getMaster = (\<lambda>c. if c < 5 then Some (Suc c) else None),
                   hasSpectators = (\<lambda>c. False)\<rparr>"

section \<open>Ownership graph: \<open>Creature::setMaster\<close>\<close>

text \<open>
  The two fields of a creature that \<open>setMaster\<close> touches: the reference to its master
  and the list of its summons.  Creatures are shared objects, so the fields of all of
  them are held in a store indexed by the creature; two references are the same when
  they name the same creature.
\<close>

record Links =
  master :: "creature_id option"
  summons :: "creature_id list"

type_synonym LinkStore = "creature_id \<Rightarrow> Links"

text \<open>
  \<open>setMaster\<close> on the creature \<open>self\<close>.  \<open>push_back\<close> appends to the new master's list;
  \<open>std::find\<close> followed by \<open>erase\<close> removes the first occurrence from the old master's
  list, if there is one.  The statements run in the order of the source, each on the
  store left by the one before.
\<close>

definition setMaster :: "LinkStore \<Rightarrow> creature_id \<Rightarrow> creature_id option \<Rightarrow> bool \<times> LinkStore" where
  "setMaster h self newMaster =
    (if newMaster = None \<and> master (h self) = None then (False, h)
     else
       let h1 = (case newMaster of
                   None \<Rightarrow> h
                 | Some m \<Rightarrow> h(m := (h m)\<lparr>summons := summons (h m) @ [self]\<rparr>));
           oldMaster = master (h1 self);
           h2 = h1(self := (h1 self)\<lparr>master := newMaster\<rparr>);
           h3 = (case oldMaster of
                   None \<Rightarrow> h2
                 | Some om \<Rightarrow> h2(om := (h2 om)\<lparr>summons := remove1 self (summons (h2 om))\<rparr>))
       in (True, h3))"

text \<open>Two stores for the examples: nobody linked, and creature 2 a summon of creature 1.\<close>

definition unlinked :: LinkStore where
  "unlinked = (\<lambda>c. \<lparr>master = None, summons = []\<rparr>)"

definition summoned :: LinkStore where
  "summoned = unlinked(1 := \<lparr>master = None, summons = [2]\<rparr>,
                       2 := \<lparr>master = Some 1, summons = []\<rparr>)"

section \<open>Return values of the game\<close>

text \<open>
  The creature code compares return values with \<open>RETURNVALUE_NOERROR\<close> and passes the others
  on; two of the others stand for all of them.
\<close>

datatype ReturnValue = RETURNVALUE_NOERROR | RETURNVALUE_NOTPOSSIBLE | RETURNVALUE_NOTENOUGHROOM

section \<open>Positions and the perception cache\<close>

text \<open>
  A position has the coordinates \<open>x\<close>, \<open>y\<close> and the floor \<open>z\<close>.  The creature code reads
  them through \<open>getX\<close>, \<open>getY\<close> and \<open>getZ\<close>, which widen them to integers, and computes
  with those; the model keeps them as integers.  Positions so close to the border of the
  coordinate range that a coordinate of the cached square would wrap around are outside
  the model.
\<close>

datatype Position = Position (getX: int) (getY: int) (getZ: int)

text \<open>
  Modelled from the spec: \<open>Position::getOffsetX\<close>, \<open>getOffsetY\<close>, \<open>getDistanceX\<close> and
  \<open>getDistanceY\<close> are declared with the position type, which is not among the sources.
  The offset is the signed difference of the coordinates of its two arguments, and the
  distance is how many tiles apart they are, the absolute value of the offset: the
  creature code takes \<open>std::abs\<close> of offsets before comparing them with a radius, and
  compares distances directly (a diagonal step has both distances \<open>>= 1\<close>, a summon is
  out of range at more than 30 tiles).
\<close>

definition getOffsetX :: "Position \<Rightarrow> Position \<Rightarrow> int" where
  "getOffsetX p1 p2 = getX p1 - getX p2"

definition getOffsetY :: "Position \<Rightarrow> Position \<Rightarrow> int" where
  "getOffsetY p1 p2 = getY p1 - getY p2"

definition getDistanceX :: "Position \<Rightarrow> Position \<Rightarrow> int" where
  "getDistanceX p1 p2 = \<bar>getOffsetX p1 p2\<bar>"

definition getDistanceY :: "Position \<Rightarrow> Position \<Rightarrow> int" where
  "getDistanceY p1 p2 = \<bar>getOffsetY p1 p2\<bar>"

text \<open>
  Modelled from the spec: the constants \<open>maxWalkCacheWidth\<close>, \<open>maxWalkCacheHeight\<close>,
  \<open>mapWalkWidth\<close> and \<open>mapWalkHeight\<close> are declared in the creature's header, which is not
  among the sources.  The two radii are parameters; the cache is a grid around the
  creature with the creature in the middle (row \<open>maxWalkCacheHeight\<close>, column
  \<open>maxWalkCacheWidth\<close>), so it has \<open>2 * radius + 1\<close> rows and columns, the last row being
  \<open>mapWalkHeight - 1\<close> as the comments of \<open>onCreatureMove\<close> say.
\<close>

record CacheDims =
  maxWalkCacheWidth :: int
  maxWalkCacheHeight :: int

definition mapWalkWidth :: "CacheDims \<Rightarrow> int" where
  "mapWalkWidth d = 2 * maxWalkCacheWidth d + 1"

definition mapWalkHeight :: "CacheDims \<Rightarrow> int" where
  "mapWalkHeight d = 2 * maxWalkCacheHeight d + 1"

text \<open>
  \<open>localMapCache\<close> is an array of rows of booleans, \<open>localMapCache[row][column]\<close>.  It is a
  store from the two indices to the value held there; the code reads and writes it inside
  its bounds only.
\<close>

type_synonym MapCache = "int \<Rightarrow> int \<Rightarrow> bool"

text \<open>
  \<open>getWalkCache\<close>.  \<open>useCacheMap\<close> is a virtual member function of the creature; its
  result is an argument.
\<close>

definition getWalkCache :: "CacheDims \<Rightarrow> bool \<Rightarrow> Position \<Rightarrow> MapCache \<Rightarrow> Position \<Rightarrow> int" where
  "getWalkCache d useCacheMap myPos localMapCache pos =
    (if \<not> useCacheMap then 2
     else if getZ myPos \<noteq> getZ pos then 0
     else if pos = myPos then 1
     else
       let dx = getOffsetX pos myPos in
       if \<bar>dx\<bar> \<le> maxWalkCacheWidth d then
         let dy = getOffsetY pos myPos in
         if \<bar>dy\<bar> \<le> maxWalkCacheHeight d then
           (if localMapCache (maxWalkCacheHeight d + dy) (maxWalkCacheWidth d + dx) then 1 else 0)
         else 2
       else 2)"

section \<open>Maintenance of the perception cache\<close>

text \<open>
  The map gives the tile at a position, or no tile.  Of a tile the cache wants to know
  one thing: the value that \<open>queryAdd\<close> returns for this creature with the flags
  \<open>FLAG_PATHFINDING | FLAG_IGNOREFIELDDAMAGE\<close>.  The map is fixed while the cache of a
  creature is compared with a rebuilt one.
\<close>

record Tile =
  queryAdd :: ReturnValue

type_synonym TilePtr = "Tile option"

type_synonym GameMap = "Position \<Rightarrow> TilePtr"

text \<open>The value stored in a cell: \<open>tile && tile->queryAdd(...) == RETURNVALUE_NOERROR\<close>.\<close>

definition tileWalkable :: "TilePtr \<Rightarrow> bool" where
  "tileWalkable tile =
     (case tile of None \<Rightarrow> False | Some t \<Rightarrow> queryAdd t = RETURNVALUE_NOERROR)"

text \<open>\<open>updateTileCache(tile, dx, dy)\<close> and \<open>updateTileCache(tile, pos)\<close>.\<close>

definition updateTileCache_offset ::
  "CacheDims \<Rightarrow> TilePtr \<Rightarrow> int \<Rightarrow> int \<Rightarrow> MapCache \<Rightarrow> MapCache" where
  "updateTileCache_offset d tile dx dy localMapCache =
    (if \<bar>dx\<bar> \<le> maxWalkCacheWidth d \<and> \<bar>dy\<bar> \<le> maxWalkCacheHeight d then
       localMapCache(maxWalkCacheHeight d + dy :=
         (localMapCache (maxWalkCacheHeight d + dy))(maxWalkCacheWidth d + dx := tileWalkable tile))
     else localMapCache)"

definition updateTileCache ::
  "CacheDims \<Rightarrow> Position \<Rightarrow> TilePtr \<Rightarrow> Position \<Rightarrow> MapCache \<Rightarrow> MapCache" where
  "updateTileCache d myPos tile pos localMapCache =
    (if getZ pos = getZ myPos
     then updateTileCache_offset d tile (getOffsetX pos myPos) (getOffsetY pos myPos) localMapCache
     else localMapCache)"

text \<open>\<open>updateMapCache\<close>: the rebuild, row by row.\<close>

definition updateMapCache :: "CacheDims \<Rightarrow> GameMap \<Rightarrow> Position \<Rightarrow> MapCache \<Rightarrow> MapCache" where
  "updateMapCache d gameMap myPos localMapCache =
     foldl (\<lambda>c y.
        foldl (\<lambda>c x.
           let pos = Position (getX myPos + x) (getY myPos + y) (getZ myPos)
           in updateTileCache d myPos (gameMap pos) pos c)
         c [- maxWalkCacheWidth d .. maxWalkCacheWidth d])
       localMapCache [- maxWalkCacheHeight d .. maxWalkCacheHeight d]"

text \<open>
  The two assignments that the shifts are made of: \<open>memcpy(localMapCache[dst],
  localMapCache[src], sizeof(localMapCache[src]))\<close>, which copies a whole row, and
  \<open>localMapCache[y][dst] = localMapCache[y][src]\<close>.
\<close>

definition copyRow :: "MapCache \<Rightarrow> int \<Rightarrow> int \<Rightarrow> MapCache" where
  "copyRow localMapCache dst src = localMapCache(dst := localMapCache src)"

definition copyCell :: "MapCache \<Rightarrow> int \<Rightarrow> int \<Rightarrow> int \<Rightarrow> MapCache" where
  "copyCell localMapCache y dst src =
     localMapCache(y := (localMapCache y)(dst := localMapCache y src))"

text \<open>
  The loops of \<open>onCreatureMove\<close>.  A loop \<open>for (y = n - 1; --y >= 0;)\<close> runs its body for
  \<open>y = n - 2\<close> down to \<open>0\<close>.
\<close>

definition shiftRowsSouth :: "CacheDims \<Rightarrow> MapCache \<Rightarrow> MapCache" where
  "shiftRowsSouth d localMapCache =
     foldl (\<lambda>c y. copyRow c (y + 1) y) localMapCache (rev [0 .. mapWalkHeight d - 2])"

definition shiftRowsNorth :: "CacheDims \<Rightarrow> MapCache \<Rightarrow> MapCache" where
  "shiftRowsNorth d localMapCache =
     foldl (\<lambda>c y. copyRow c y (y + 1)) localMapCache [0 .. mapWalkHeight d - 2]"

definition shiftColumnsWest :: "CacheDims \<Rightarrow> int \<Rightarrow> int \<Rightarrow> MapCache \<Rightarrow> MapCache" where
  "shiftColumnsWest d starty endy localMapCache =
     foldl (\<lambda>c y. foldl (\<lambda>c x. copyCell c y x (x + 1)) c [0 .. mapWalkWidth d - 2])
       localMapCache [starty .. endy]"

definition shiftColumnsEast :: "CacheDims \<Rightarrow> int \<Rightarrow> int \<Rightarrow> MapCache \<Rightarrow> MapCache" where
  "shiftColumnsEast d starty endy localMapCache =
     foldl (\<lambda>c y. foldl (\<lambda>c x. copyCell c y (x + 1) x) c (rev [0 .. mapWalkWidth d - 2]))
       localMapCache [starty .. endy]"

definition updateRow ::
  "CacheDims \<Rightarrow> GameMap \<Rightarrow> Position \<Rightarrow> int \<Rightarrow> MapCache \<Rightarrow> MapCache" where
  "updateRow d gameMap myPos dy localMapCache =
     foldl (\<lambda>c x.
        updateTileCache_offset d
          (gameMap (Position (getX myPos + x) (getY myPos + dy) (getZ myPos))) x dy c)
       localMapCache [- maxWalkCacheWidth d .. maxWalkCacheWidth d]"

definition updateColumn ::
  "CacheDims \<Rightarrow> GameMap \<Rightarrow> Position \<Rightarrow> int \<Rightarrow> MapCache \<Rightarrow> MapCache" where
  "updateColumn d gameMap myPos dx localMapCache =
     foldl (\<lambda>c y.
        updateTileCache_offset d
          (gameMap (Position (getX myPos + dx) (getY myPos + y) (getZ myPos))) dx y c)
       localMapCache [- maxWalkCacheHeight d .. maxWalkCacheHeight d]"

text \<open>The rows that the east and west shifts run over: \<open>starty\<close> and \<open>endy\<close>.\<close>

definition shiftRows :: "CacheDims \<Rightarrow> Position \<Rightarrow> Position \<Rightarrow> int \<times> int" where
  "shiftRows d oldPos newPos =
    (let starty = 0;
         endy = mapWalkHeight d - 1;
         dy = getDistanceY oldPos newPos
     in if dy < 0 then (starty, endy + dy)
        else if 0 < dy then (dy, endy)
        else (starty, endy))"

text \<open>
  The part \<open>//update map cache\<close> of \<open>onCreatureMove\<close>, for the creature that moved itself
  and has its map loaded.  \<open>myPos\<close> is \<open>getPosition()\<close>, the position of the creature when
  it is told of the move; \<open>oldTile\<close> is the tile it left.
\<close>

definition onCreatureMove_cache ::
  "CacheDims \<Rightarrow> GameMap \<Rightarrow> Position \<Rightarrow> Position \<Rightarrow> TilePtr \<Rightarrow> Position \<Rightarrow> bool
     \<Rightarrow> MapCache \<Rightarrow> MapCache" where
  "onCreatureMove_cache d gameMap myPos newPos oldTile oldPos teleport localMapCache =
    (if teleport \<or> getZ oldPos \<noteq> getZ newPos then updateMapCache d gameMap myPos localMapCache
     else
       let c1 = (if getY newPos < getY oldPos then
                   updateRow d gameMap myPos (- maxWalkCacheHeight d)
                     (shiftRowsSouth d localMapCache)
                 else if getY oldPos < getY newPos then
                   updateRow d gameMap myPos (maxWalkCacheHeight d)
                     (shiftRowsNorth d localMapCache)
                 else localMapCache);
           c2 = (if getX oldPos < getX newPos then
                   (case shiftRows d oldPos newPos of (starty, endy) \<Rightarrow>
                      updateColumn d gameMap myPos (maxWalkCacheWidth d)
                        (shiftColumnsWest d starty endy c1))
                 else if getX newPos < getX oldPos then
                   (case shiftRows d oldPos newPos of (starty, endy) \<Rightarrow>
                      updateColumn d gameMap myPos (- maxWalkCacheWidth d)
                        (shiftColumnsEast d starty endy c1))
                 else c1)
       in updateTileCache d myPos oldTile oldPos c2)"

text \<open>
  A creature steps from \<open>oldPos\<close> to \<open>newPos\<close> on a fixed map: it is then at \<open>newPos\<close> and the
  tile it left is the tile of the map at \<open>oldPos\<close>.
\<close>

definition stepCache :: "CacheDims \<Rightarrow> GameMap \<Rightarrow> Position \<Rightarrow> Position \<Rightarrow> MapCache \<Rightarrow> MapCache" where
  "stepCache d gameMap oldPos newPos localMapCache =
     onCreatureMove_cache d gameMap newPos newPos (gameMap oldPos) oldPos False localMapCache"

text \<open>
  A map for the examples: every position has a tile, and a creature can be added to it
  unless it lies west of \<open>x = 90\<close>.
\<close>

definition wallMap :: GameMap where
  "wallMap = (\<lambda>pos. Some \<lparr>queryAdd =
      (if 90 \<le> getX pos then RETURNVALUE_NOERROR else RETURNVALUE_NOTPOSSIBLE)\<rparr>)"

definition blankCache :: MapCache where
  "blankCache = (\<lambda>row col. False)"

text \<open>
  To compare caches: the cells of the grid, and the value that a rebuild at the position
  \<open>p\<close> puts in the cell of row \<open>r\<close> and column \<open>k\<close>.
\<close>

definition inCache :: "CacheDims \<Rightarrow> int \<Rightarrow> int \<Rightarrow> bool" where
  "inCache d r k =
     (0 \<le> r \<and> r \<le> 2 * maxWalkCacheHeight d \<and> 0 \<le> k \<and> k \<le> 2 * maxWalkCacheWidth d)"

definition rebuilt :: "CacheDims \<Rightarrow> GameMap \<Rightarrow> Position \<Rightarrow> int \<Rightarrow> int \<Rightarrow> bool" where
  "rebuilt d g p r k =
     tileWalkable (g (Position (getX p + (k - maxWalkCacheWidth d))
                               (getY p + (r - maxWalkCacheHeight d)) (getZ p)))"

text \<open>
  A lateral step stays on the floor and moves by at most one tile in each direction; it is
  a south diagonal when it goes south and changes the column as well.  \<open>walkCache\<close> runs
  the incremental maintenance along a list of positions visited one after the other, and
  \<open>soundPath\<close> says that all the steps of such a walk are lateral and none is a south
  diagonal.
\<close>

definition lateralStep :: "Position \<Rightarrow> Position \<Rightarrow> bool" where
  "lateralStep p q =
     (getZ q = getZ p \<and> \<bar>getX q - getX p\<bar> \<le> 1 \<and> \<bar>getY q - getY p\<bar> \<le> 1)"

definition southDiagonal :: "Position \<Rightarrow> Position \<Rightarrow> bool" where
  "southDiagonal p q = (getY p < getY q \<and> getX p \<noteq> getX q)"

fun walkCache :: "CacheDims \<Rightarrow> GameMap \<Rightarrow> Position \<Rightarrow> Position list \<Rightarrow> MapCache \<Rightarrow> MapCache" where
  "walkCache d g p [] c = c"
| "walkCache d g p (q # qs) c = walkCache d g q qs (stepCache d g p q c)"

fun soundPath :: "Position \<Rightarrow> Position list \<Rightarrow> bool" where
  "soundPath p [] = True"
| "soundPath p (q # qs) = (lateralStep p q \<and> \<not> southDiagonal p q \<and> soundPath q qs)"

text \<open>For the examples: a cache of radius 11 both ways, and a cache that holds true everywhere.\<close>

definition dims11 :: CacheDims where
  "dims11 = \<lparr>maxWalkCacheWidth = 11, maxWalkCacheHeight = 11\<rparr>"

definition allWalkable :: MapCache where
  "allWalkable = (\<lambda>row col. True)"

section \<open>Movement: \<open>Creature::onWalk\<close>\<close>

datatype Direction =
    DIRECTION_NORTH | DIRECTION_EAST | DIRECTION_SOUTH | DIRECTION_WEST
  | DIRECTION_SOUTHWEST | DIRECTION_SOUTHEAST | DIRECTION_NORTHWEST | DIRECTION_NORTHEAST

text \<open>The fields of the creature that \<open>onWalk\<close> reads and writes.\<close>

record WalkState =
  listWalkDir :: "Direction list"
  cancelNextWalk :: bool
  forceUpdateFollowPath :: bool
  eventWalk :: uint32_t

text \<open>
  What \<open>Npc::getNextStep\<close> reads besides the queue: the fields \<open>walkTicks\<close> and
  \<open>focusCreature\<close>, the value of \<open>getTimeSinceLastMove()\<close>, and the result of
  \<open>getRandomStep\<close>, the first direction of a random order in which the Npc can walk, if any.
\<close>

record NpcWalk =
  walkTicks :: uint32_t
  focusCreature :: uint32_t
  getTimeSinceLastMove :: int64_t
  getRandomStep :: "Direction option"

text \<open>
  What \<open>onWalk\<close> gets from outside the creature's fields during one call:
  \<^item> \<open>getWalkDelay\<close>, the value of \<open>getWalkDelay()\<close>, which depends on the clock;
  \<^item> \<open>drunkenStep\<close>, the direction that \<open>onWalk(Direction&)\<close> replaces the step with when
    the creature is drunk and the draw says so, if any;
  \<^item> \<open>internalMoveCreature\<close>, the value returned by the game for a move in a direction
    (the move request is taken by its return value);
  \<^item> \<open>isPlayer\<close>, whether \<open>getPlayer()\<close> is non-null;
  \<^item> \<open>npc\<close>, which function the virtual call \<open>getNextStep(dir, flags)\<close> reaches: for an Npc
    it is \<open>Npc::getNextStep\<close>, and \<open>npc\<close> holds what that function reads; otherwise it
    is \<open>Creature::getNextStep\<close>, and \<open>npc\<close> is \<open>None\<close>;
  \<^item> \<open>addEventWalk\<close>, the timer handle that \<open>addEventWalk()\<close> leaves in \<open>eventWalk\<close>,
    0 when it arms no timer.
\<close>

record WalkEnv =
  getWalkDelay :: int32_t
  drunkenStep :: "Direction option"
  internalMoveCreature :: "Direction \<Rightarrow> ReturnValue"
  isPlayer :: bool
  npc :: "NpcWalk option"
  addEventWalk :: uint32_t

datatype WalkEvent =
    SayHicks
  | MoveCreature Direction
  | SendCancelMessage ReturnValue
  | SendCancelWalk
  | StopEvent uint32_t
  | OnWalkComplete
  | OnWalkAborted
  | AddEventWalk

text \<open>\<open>onWalk(Direction& dir)\<close>: a drunk creature may step somewhere else.\<close>

definition onWalk_dir :: "WalkEnv \<Rightarrow> Direction \<Rightarrow> Direction \<times> WalkEvent list" where
  "onWalk_dir env dir = (case drunkenStep env of None \<Rightarrow> (dir, []) | Some d \<Rightarrow> (d, [SayHicks]))"

text \<open>
  \<open>Creature::getNextStep\<close> takes the direction at the back of \<open>listWalkDir\<close> and passes it
  through \<open>onWalk(Direction&)\<close>.
\<close>

definition Creature_getNextStep ::
  "WalkEnv \<Rightarrow> WalkState \<Rightarrow> (Direction \<times> WalkEvent list) option \<times> WalkState" where
  "Creature_getNextStep env s =
    (if listWalkDir s = [] then (None, s)
     else (Some (onWalk_dir env (last (listWalkDir s))),
           s\<lparr>listWalkDir := butlast (listWalkDir s)\<rparr>))"

text \<open>
  \<open>Npc::getNextStep\<close> first asks \<open>Creature::getNextStep\<close>; when the queue gives nothing, an
  Npc that walks (\<open>walkTicks\<close> is not 0), has no focus and has stood for \<open>walkTicks\<close> takes a
  random step.  The test \<open>getTimeSinceLastMove() < walkTicks\<close> compares an \<open>int64_t\<close> with a
  \<open>uint32_t\<close>.
\<close>

definition Npc_getNextStep ::
  "WalkEnv \<Rightarrow> NpcWalk \<Rightarrow> WalkState \<Rightarrow> (Direction \<times> WalkEvent list) option \<times> WalkState" where
  "Npc_getNextStep env n s0 =
    (case Creature_getNextStep env s0 of
       (Some step, s) \<Rightarrow> (Some step, s)
     | (None, s) \<Rightarrow>
         if walkTicks n = 0 then (None, s)
         else if focusCreature n \<noteq> 0 then (None, s)
         else if sint (getTimeSinceLastMove n) < uint (walkTicks n) then (None, s)
         else (case getRandomStep n of None \<Rightarrow> (None, s) | Some d \<Rightarrow> (Some (d, []), s)))"

text \<open>The virtual call \<open>getNextStep(dir, flags)\<close> of \<open>onWalk\<close>.\<close>

definition getNextStep ::
  "WalkEnv \<Rightarrow> WalkState \<Rightarrow> (Direction \<times> WalkEvent list) option \<times> WalkState" where
  "getNextStep env s =
    (case npc env of None \<Rightarrow> Creature_getNextStep env s | Some n \<Rightarrow> Npc_getNextStep env n s)"

definition stopEventWalk :: "WalkState \<Rightarrow> WalkState \<times> WalkEvent list" where
  "stopEventWalk s =
    (if eventWalk s \<noteq> 0 then (s\<lparr>eventWalk := 0\<rparr>, [StopEvent (eventWalk s)]) else (s, []))"

text \<open>
  \<open>onWalk()\<close>, its three statements in turn: the step, the cancellation, the re-arming of
  the timer (\<open>addEventWalk\<close> begins by resetting \<open>cancelNextWalk\<close>).
\<close>

definition onWalk :: "WalkEnv \<Rightarrow> WalkState \<Rightarrow> WalkState \<times> WalkEvent list" where
  "onWalk env s0 =
    (let (s1, ev1) =
           (if getWalkDelay env \<le>s 0 then
              (case getNextStep env s0 of
                 (Some (dir, evd), s) \<Rightarrow>
                   (let ret = internalMoveCreature env dir in
                    if ret \<noteq> RETURNVALUE_NOERROR then
                      (s\<lparr>forceUpdateFollowPath := True\<rparr>,
                       evd @ [MoveCreature dir]
                       @ (if isPlayer env then [SendCancelMessage ret, SendCancelWalk] else []))
                    else (s, evd @ [MoveCreature dir]))
               | (None, s) \<Rightarrow>
                   (let (s', evs) = stopEventWalk s in
                    (s', evs @ (if listWalkDir s' = [] then [OnWalkComplete] else []))))
            else (s0, []));
         (s2, ev2) =
           (if cancelNextWalk s1
            then (s1\<lparr>listWalkDir := [], cancelNextWalk := False\<rparr>, [OnWalkAborted])
            else (s1, []));
         (s3, ev3) =
           (if eventWalk s2 \<noteq> 0
            then (s2\<lparr>eventWalk := addEventWalk env, cancelNextWalk := False\<rparr>, [AddEventWalk])
            else (s2, []))
     in (s3, ev1 @ ev2 @ ev3))"

text \<open>
  The direction that a call of \<open>onWalk\<close> submits to the game, if it submits a move: the
  walk delay has passed and \<open>getNextStep\<close> gives a direction.
\<close>

definition submittedStep :: "WalkEnv \<Rightarrow> WalkState \<Rightarrow> Direction option" where
  "submittedStep env s =
    (if getWalkDelay env \<le>s 0 then map_option fst (fst (getNextStep env s)) else None)"

text \<open>
  For the examples: a player whose every move is refused, with two directions queued and
  the walk cancelled or not; and an Npc whose every move is refused, with an empty queue,
  that has stood for 2000 with \<open>walkTicks\<close> 1500 and draws a step to the south.
\<close>

definition blockedEnv :: WalkEnv where
  "blockedEnv = \<lparr>getWalkDelay = 0, drunkenStep = None,
     internalMoveCreature = (\<lambda>d. RETURNVALUE_NOTPOSSIBLE), isPlayer = True, npc = None,
     addEventWalk = 7\<rparr>"

definition walking :: "bool \<Rightarrow> WalkState" where
  "walking cancel = \<lparr>listWalkDir = [DIRECTION_NORTH, DIRECTION_EAST], cancelNextWalk = cancel,
     forceUpdateFollowPath = False, eventWalk = 3\<rparr>"

definition blockedNpc :: WalkEnv where
  "blockedNpc = \<lparr>getWalkDelay = 0, drunkenStep = None,
     internalMoveCreature = (\<lambda>d. RETURNVALUE_NOTPOSSIBLE), isPlayer = False,
     npc = Some \<lparr>walkTicks = 1500, focusCreature = 0, getTimeSinceLastMove = 2000,
                 getRandomStep = Some DIRECTION_SOUTH\<rparr>,
     addEventWalk = 7\<rparr>"

definition standing :: WalkState where
  "standing = \<lparr>listWalkDir = [], cancelNextWalk = False, forceUpdateFollowPath = False,
     eventWalk = 3\<rparr>"

section \<open>Double-precision arithmetic\<close>

text \<open>
  The experience shares are computed in \<open>double\<close>.  A finite non-negative \<open>double\<close> is held
  as a pair \<open>(m, e)\<close> of integers that stands for \<open>m * 2 ^ e\<close>, with \<open>m\<close> of at most 53 bits
  (\<open>2 ^ 53\<close> itself is let through: it is the next power of two).  Each operation of IEEE 754
  binary64 gives the representable number nearest to the exact result, and of two equally
  near the one with the even significand.  The exponent range is not modelled: the
  operands met here are integers of at most 64 bits and their quotients, far from the
  overflow and underflow of the format.
\<close>

type_synonym double = "int \<times> int"

definition doubleValue :: "double \<Rightarrow> real" where
  "doubleValue d = real_of_int (fst d) * 2 powr real_of_int (snd d)"

text \<open>The integer nearest to \<open>p / q\<close> for \<open>0 \<le> p\<close> and \<open>0 < q\<close>, the even one of two.\<close>

definition roundNearestEven :: "int \<Rightarrow> int \<Rightarrow> int" where
  "roundNearestEven p q =
    (let f = p div q; r = p mod q
     in if 2 * r < q then f
        else if q < 2 * r then f + 1
        else if even f then f else f + 1)"

text \<open>
  The quotient of two integers, \<open>0 \<le> p\<close> and \<open>0 < q\<close>, as a \<open>double\<close>.  \<open>e\<close> is the exponent
  of the quotient, \<open>2 ^ e \<le> p / q < 2 ^ (e + 1)\<close>: from the bit lengths it is \<open>e0\<close> or
  \<open>e0 - 1\<close>.  The quotient is scaled by \<open>2 ^ (52 - e)\<close>, into \<open>[2 ^ 52, 2 ^ 53)\<close>, and rounded.
\<close>

definition divDouble :: "int \<Rightarrow> int \<Rightarrow> double" where
  "divDouble p q =
    (if p = 0 then (0, 0)
     else
       let e0 = bitlen p - bitlen q;
           e = (if q * 2 ^ nat e0 \<le> p * 2 ^ nat (- e0) then e0 else e0 - 1)
       in (roundNearestEven (p * 2 ^ nat (52 - e)) (q * 2 ^ nat (e - 52)), e - 52))"

text \<open>The conversion of a non-negative integer to \<open>double\<close>.\<close>

definition toDouble :: "int \<Rightarrow> double" where
  "toDouble n = divDouble n 1"

text \<open>The product of two doubles: the exact product of the significands, rounded.\<close>

definition mulDouble :: "double \<Rightarrow> double \<Rightarrow> double" where
  "mulDouble a b =
    (case toDouble (fst a * fst b) of (m, e) \<Rightarrow> (m, e + snd a + snd b))"

text \<open>\<open>std::floor\<close> of a \<open>double\<close>, as an integer.\<close>

definition floorDouble :: "double \<Rightarrow> int" where
  "floorDouble d = (if 0 \<le> snd d then fst d * 2 ^ nat (snd d) else fst d div 2 ^ nat (- snd d))"

section \<open>The damage ledger and its consumers\<close>

text \<open>
  An entry of \<open>damageMap\<close>: the cumulative damage of an attacker and the time of its last
  hit.  \<open>damageMap\<close> is a \<open>std::map\<close> from the attacker's identifier to its entry; it is
  held as the list of its pairs in the order in which the loops visit them.
\<close>

record CountBlock_t =
  total :: int32_t
  ticks :: int64_t

type_synonym DamageMap = "(creature_id \<times> CountBlock_t) list"

text \<open>
  What the consumers read besides the ledger: the identifier \<open>thisID\<close> of the creature
  itself; whether \<open>getCreatureByID\<close> finds a creature for an identifier (the creature found
  is named by that identifier); whether it is a player and, for a player in a party that
  has a leader and whose shared experience is active and enabled, that leader; the value
  of \<open>getLostExperience()\<close>; the clock \<open>OTSYS_TIME()\<close> and the configured combat-lock
  duration \<open>PZ_LOCKED\<close>.
\<close>

record DeathEnv =
  thisID :: creature_id
  getCreatureByID :: "creature_id \<Rightarrow> bool"
  isPlayerID :: "creature_id \<Rightarrow> bool"
  sharedExperienceLeader :: "creature_id \<Rightarrow> creature_id option"
  getLostExperience :: uint64_t
  timeNow :: int64_t
  inFightTicks :: uint32_t

text \<open>
  The test \<open>timeNow - cb.ticks <= inFightTicks\<close>: a signed 64-bit difference compared with
  an unsigned 32-bit duration.
\<close>

definition inFight :: "DeathEnv \<Rightarrow> CountBlock_t \<Rightarrow> bool" where
  "inFight env cb = (sint (timeNow env - ticks cb) \<le> uint (inFightTicks env))"

fun getKillers :: "DeathEnv \<Rightarrow> DamageMap \<Rightarrow> creature_id list" where
  "getKillers env [] = []"
| "getKillers env ((a, cb) # rest) =
     (if getCreatureByID env a \<and> a \<noteq> thisID env \<and> inFight env cb
      then a # getKillers env rest else getKillers env rest)"

text \<open>
  The loop of \<open>getDamageRatio\<close>, on its two \<open>uint32_t\<close> counters, and the quotient it
  returns: \<open>static_cast<double>(attackerDamage) / totalDamage\<close>, a division of two doubles
  that hold the counters exactly.
\<close>

fun damageTotals ::
  "DamageMap \<Rightarrow> creature_id \<Rightarrow> uint32_t \<times> uint32_t \<Rightarrow> uint32_t \<times> uint32_t" where
  "damageTotals [] attacker (totalDamage, attackerDamage) = (totalDamage, attackerDamage)"
| "damageTotals ((a, cb) # rest) attacker (totalDamage, attackerDamage) =
     damageTotals rest attacker
       (totalDamage + total cb,
        if a = attacker then attackerDamage + total cb else attackerDamage)"

definition getDamageRatio :: "DamageMap \<Rightarrow> creature_id \<Rightarrow> double" where
  "getDamageRatio damageMap attacker =
    (case damageTotals damageMap attacker (0, 0) of
       (totalDamage, attackerDamage) \<Rightarrow>
         if totalDamage = 0 then (0, 0)
         else divDouble (uint attackerDamage) (uint totalDamage))"

text \<open>
  \<open>std::floor(getDamageRatio(attacker) * getLostExperience())\<close>: the lost experience, a
  \<open>uint64_t\<close>, is converted to \<open>double\<close>, the product is a product of doubles, and its floor
  is converted to the \<open>uint64_t\<close> that is returned (the floor is below \<open>2 ^ 64\<close> unless the
  counters have wrapped around or the lost experience is within 1024 of \<open>2 ^ 64\<close>).
\<close>

definition getGainedExperience :: "DeathEnv \<Rightarrow> DamageMap \<Rightarrow> creature_id \<Rightarrow> uint64_t" where
  "getGainedExperience env damageMap attacker =
     word_of_int (floorDouble (mulDouble (getDamageRatio damageMap attacker)
                                 (toDouble (uint (getLostExperience env)))))"

text \<open>
  The scan of the ledger in \<open>onDeath\<close>: it finds the attacker with the most damage and
  builds \<open>experienceMap\<close>; \<open>removeAttacked\<close> lists the players on which
  \<open>removeAttacked\<close> is called.
\<close>

record DeathScan =
  mostDamage :: int32_t
  mostDamageCreature :: "creature_id option"
  experienceMap :: "creature_id \<rightharpoonup> uint64_t"
  removeAttacked :: "creature_id list"

definition scanEntry ::
  "DeathEnv \<Rightarrow> DamageMap \<Rightarrow> creature_id \<times> CountBlock_t \<Rightarrow> DeathScan \<Rightarrow> DeathScan" where
  "scanEntry env damageMap e acc =
    (case e of (a, cb) \<Rightarrow>
      if getCreatureByID env a then
        let acc1 = (if mostDamage acc <s total cb \<and> inFight env cb
                    then acc\<lparr>mostDamage := total cb, mostDamageCreature := Some a\<rparr>
                    else acc)
        in if a \<noteq> thisID env then
             let gainExp = getGainedExperience env damageMap a;
                 acc2 = (if isPlayerID env a
                         then acc1\<lparr>removeAttacked := removeAttacked acc1 @ [a]\<rparr> else acc1);
                 attacker = (if isPlayerID env a
                             then (case sharedExperienceLeader env a of
                                     Some leader \<Rightarrow> leader | None \<Rightarrow> a)
                             else a)
             in acc2\<lparr>experienceMap := (experienceMap acc2)(attacker \<mapsto>
                      (case experienceMap acc2 attacker of
                         None \<Rightarrow> gainExp | Some e \<Rightarrow> e + gainExp))\<rparr>
           else acc1
      else acc)"

fun scanEntries :: "DeathEnv \<Rightarrow> DamageMap \<Rightarrow> DamageMap \<Rightarrow> DeathScan \<Rightarrow> DeathScan" where
  "scanEntries env damageMap [] acc = acc"
| "scanEntries env damageMap (e # es) acc =
     scanEntries env damageMap es (scanEntry env damageMap e acc)"

definition scanStart :: DeathScan where
  "scanStart = \<lparr>mostDamage = 0, mostDamageCreature = None, experienceMap = Map.empty,
                 removeAttacked = []\<rparr>"

definition onDeath_scan :: "DeathEnv \<Rightarrow> DamageMap \<Rightarrow> DeathScan" where
  "onDeath_scan env damageMap = scanEntries env damageMap damageMap scanStart"

text \<open>
  To say what a consumer counts: the entries of a ledger that are inside the combat-lock
  window; the sum of the damage of a list of entries, in 32 bits; the creature that
  receives the experience share of an attacker; and the entries whose share goes to a
  given creature, those of the attackers that exist and are not the creature that died.
\<close>

definition active :: "DeathEnv \<Rightarrow> DamageMap \<Rightarrow> DamageMap" where
  "active env damageMap = filter (\<lambda>e. inFight env (snd e)) damageMap"

definition damageSum :: "DamageMap \<Rightarrow> uint32_t" where
  "damageSum entries = sum_list (map (\<lambda>e. total (snd e)) entries)"

definition recipient :: "DeathEnv \<Rightarrow> creature_id \<Rightarrow> creature_id" where
  "recipient env a =
    (if isPlayerID env a
     then (case sharedExperienceLeader env a of Some leader \<Rightarrow> leader | None \<Rightarrow> a)
     else a)"

definition sharesOf :: "DeathEnv \<Rightarrow> DamageMap \<Rightarrow> creature_id \<Rightarrow> DamageMap" where
  "sharesOf env damageMap r =
     filter (\<lambda>e. getCreatureByID env (fst e) \<and> fst e \<noteq> thisID env \<and> recipient env (fst e) = r)
       damageMap"

text \<open>
  For the examples: a creature dies at time 1000000 with a lock of 60000 and loses 100
  experience; in one ledger attacker 1 dealt 30 at time 0 and attacker 2 dealt 70 at time
  990000, in the other attacker 1 dealt 29 and attacker 2 dealt 71, both at time 990000.
\<close>

definition fightEnv :: DeathEnv where
  "fightEnv = \<lparr>thisID = 9, getCreatureByID = (\<lambda>a. True), isPlayerID = (\<lambda>a. False),
     sharedExperienceLeader = (\<lambda>a. None), getLostExperience = 100,
     timeNow = 1000000, inFightTicks = 60000\<rparr>"

definition staleLedger :: DamageMap where
  "staleLedger = [(1, \<lparr>total = 30, ticks = 0\<rparr>), (2, \<lparr>total = 70, ticks = 990000\<rparr>)]"

definition freshLedger :: DamageMap where
  "freshLedger = [(1, \<lparr>total = 29, ticks = 990000\<rparr>), (2, \<lparr>total = 71, ticks = 990000\<rparr>)]"

section \<open>Movement: \<open>Creature::getStepDuration\<close>\<close>

text \<open>
  What \<open>getStepDuration()\<close> reads:
  \<^item> \<open>isRemoved\<close> and \<open>getStepSpeed\<close>, the results of the member functions of those names;
  \<^item> \<open>getGround\<close>, the \<open>speed\<close> of the item type of the ground of the creature's tile, or
    nothing when the tile has no ground;
  \<^item> whether the creature is a monster and, for a monster, \<open>isTargetNearby\<close>, \<open>isFleeing\<close>
    and whether it has a master.
\<close>

record StepEnv =
  isRemoved :: bool
  getStepSpeed :: int32_t
  getGround :: "uint32_t option"
  isMonster :: bool
  isTargetNearby :: bool
  isFleeing :: bool
  monsterHasMaster :: bool

text \<open>The constants of the speed curve, \<open>Creature::speedA\<close>, \<open>speedB\<close> and \<open>speedC\<close>.\<close>

definition speedA :: real where
  "speedA = 857.36"

definition speedB :: real where
  "speedB = 261.29"

definition speedC :: real where
  "speedC = - 4795.01"

text \<open>
  The value of \<open>floor((speedA * log((stepSpeed / 2) + speedB) + speedC) + 0.5)\<close>.
  \<open>stepSpeed / 2\<close> is a division of integers, which truncates towards zero.  The logarithm
  and the arithmetic around it are taken on the reals.
\<close>

definition speedCurve :: "int32_t \<Rightarrow> int" where
  "speedCurve stepSpeed =
     \<lfloor>(speedA * ln (real_of_int (sint stepSpeed sdiv 2) + speedB) + speedC) + 0.5\<rfloor>"

text \<open>
  The effective speed, a \<open>uint32_t\<close>.  The test \<open>stepSpeed > -Creature::speedB\<close> compares
  an integer with \<open>-261.29\<close>.  The assignment converts the value of the curve to
  \<open>uint32_t\<close>: a value from 0 to \<open>2 ^ 32 - 1\<close> is kept; for a negative value C++ defines no
  result, and the compiled code keeps the low 32 bits of the integer.
\<close>

definition calculatedStepSpeed :: "StepEnv \<Rightarrow> uint32_t" where
  "calculatedStepSpeed env =
    (let stepSpeed = getStepSpeed env
     in if - speedB < real_of_int (sint stepSpeed) then
          (let curve = (word_of_int (speedCurve stepSpeed) :: uint32_t)
           in if curve = 0 then 1 else curve)
        else 1)"

definition groundSpeed :: "StepEnv \<Rightarrow> uint32_t" where
  "groundSpeed env =
    (case getGround env of
       Some speed \<Rightarrow> if speed = 0 then 150 else speed
     | None \<Rightarrow> 150)"

text \<open>
  \<open>1000 * groundSpeed / calculatedStepSpeed\<close> is a product and a quotient of \<open>uint32_t\<close>;
  \<open>std::floor\<close> turns the quotient into a \<open>double\<close>, which holds it exactly, and so are the
  division by 50 (up to a rounding far smaller than 1/50), \<open>std::ceil\<close> and the product
  with 50: they are taken on the reals.  The result is an \<open>int64_t\<close>, far from its bounds.
\<close>

definition getStepDuration :: "StepEnv \<Rightarrow> int" where
  "getStepDuration env =
    (if isRemoved env then 0
     else
       let duration = (of_nat (unat (1000 * groundSpeed env div calculatedStepSpeed env)) :: real);
           stepDuration = \<lceil>duration / 50\<rceil> * 50
       in if isMonster env \<and> isTargetNearby env \<and> \<not> isFleeing env \<and> \<not> monsterHasMaster env
          then stepDuration * 2 else stepDuration)"

text \<open>
  The step duration as the specification words it:
  \<open>ceil(floor(1000 * groundFriction / effectiveSpeed) / 50) * 50\<close> with
  \<open>effectiveSpeed = max(1, floor(A * ln(speed / 2 + B) + C + 0.5))\<close>, and 1 for a speed of
  at most \<open>-B\<close>; \<open>groundFriction\<close> is the speed of the tile's ground, or 150 when the
  ground is absent or its speed is 0.
\<close>

definition effectiveSpeed :: "int32_t \<Rightarrow> int" where
  "effectiveSpeed speed =
     (if real_of_int (sint speed) \<le> - speedB then 1 else max 1 (speedCurve speed))"

definition groundFriction :: "uint32_t option \<Rightarrow> int" where
  "groundFriction ground =
     (case ground of None \<Rightarrow> 150 | Some speed \<Rightarrow> if speed = 0 then 150 else uint speed)"

definition specStepDuration :: "int \<Rightarrow> int \<Rightarrow> int" where
  "specStepDuration effective friction =
     \<lceil>real_of_int \<lfloor>real_of_int (1000 * friction) / real_of_int effective\<rfloor> / 50\<rceil> * 50"


text \<open>
  For the examples: a creature on a tile without ground, with a given speed; it is a
  monster with its target nearby, or not a monster.
\<close>

definition walker :: "int32_t \<Rightarrow> bool \<Rightarrow> StepEnv" where
  "walker speed monster = \<lparr>isRemoved = False, getStepSpeed = speed,
     getGround = None, isMonster = monster, isTargetNearby = monster, isFleeing = False,
     monsterHasMaster = False\<rparr>"

section \<open>Properties of \<open>blockHit\<close>\<close>

text \<open>
  C1.  Whenever the damage left after the mitigation steps is at most 0, \<open>blockHit\<close> sets
  the damage to 0 and returns \<open>BLOCK_ARMOR\<close>, whatever brought the damage down (immunity,
  defence, armour, or a damage that was not positive to begin with).
\<close>

theorem blockHit_zero_damage_is_armor:
  "damage (mitigation c combatType dmg checkDefense checkArmor) \<le>s 0 \<Longrightarrow>
     damage (blockHit c attacker combatType dmg checkDefense checkArmor) = 0 \<and>
     blockType (blockHit c attacker combatType dmg checkDefense checkArmor) = BLOCK_ARMOR"
  by (simp add: blockHit_def Let_def)

text \<open>
  At damage 5 against defence 10 the defence step takes the damage to 0 and classifies it
  \<open>BLOCK_DEFENSE\<close>; the call still returns \<open>BLOCK_ARMOR\<close>.
\<close>

theorem blockHit_zero_damage_is_armor_witness:
  "blockType (mitigation (guarded False) COMBAT_PHYSICALDAMAGE 5 True True) = BLOCK_DEFENSE \<and>
   damage (mitigation (guarded False) COMBAT_PHYSICALDAMAGE 5 True True) \<le>s 0 \<and>
   damage (blockHit (guarded False) None COMBAT_PHYSICALDAMAGE 5 True True) = 0 \<and>
   blockType (blockHit (guarded False) None COMBAT_PHYSICALDAMAGE 5 True True) = BLOCK_ARMOR"
proof -
  have m: "mitigation (guarded False) COMBAT_PHYSICALDAMAGE 5 True True =
      \<lparr>damage = 0, blockType = BLOCK_DEFENSE, blockCountAfter = 0, events = [OnBlockHit]\<rparr>"
    by (simp add: mitigation_def guarded_def Let_def div_i32_def word_sle_eq word_sless_alt)
  have z: "damage (mitigation (guarded False) COMBAT_PHYSICALDAMAGE 5 True True) \<le>s 0"
    by (simp add: m)
  show ?thesis
    using blockHit_zero_damage_is_armor [OF z, of None] by (simp add: m)
qed

text \<open>
  C3, as stated: with \<open>checkDefense = false\<close> and \<open>checkArmor = false\<close> the damage is never
  reduced and the classification is \<open>BLOCK_NONE\<close> or \<open>BLOCK_IMMUNITY\<close>.  An immune creature
  hit for 50 has the damage taken to 0, and the call returns \<open>BLOCK_ARMOR\<close>.
\<close>

theorem blockHit_unchecked_counterexample:
  "\<not> (50 \<le>s damage (blockHit (guarded True) None COMBAT_FIREDAMAGE 50 False False)) \<and>
   blockType (blockHit (guarded True) None COMBAT_FIREDAMAGE 50 False False) \<noteq> BLOCK_NONE \<and>
   blockType (blockHit (guarded True) None COMBAT_FIREDAMAGE 50 False False) \<noteq> BLOCK_IMMUNITY"
  by (simp add: blockHit_def mitigation_def guarded_def Let_def word_sle_eq)

text \<open>
  Without immunity the classification is not always \<open>BLOCK_NONE\<close> either: a hit of damage 0
  returns \<open>BLOCK_ARMOR\<close>.
\<close>

lemma blockHit_unchecked_zero_damage:
  "blockType (blockHit (guarded False) None COMBAT_FIREDAMAGE 0 False False) = BLOCK_ARMOR"
  by (simp add: blockHit_def mitigation_def guarded_def Let_def word_sle_eq)

text \<open>
  C3, amended.  With \<open>checkDefense = false\<close> and \<open>checkArmor = false\<close>, no defence charge is
  used.  When the creature is not immune to the combat type, a positive damage is returned
  unchanged with \<open>BLOCK_NONE\<close>, and a damage that is not positive becomes 0 with
  \<open>BLOCK_ARMOR\<close>, so the damage is never reduced.  When the creature is immune the damage
  becomes 0.
\<close>

theorem blockHit_unchecked:
  "blockCountAfter (blockHit c attacker combatType dmg False False) = blockCount c \<and>
   (\<not> isImmune c combatType \<longrightarrow>
      damage (blockHit c attacker combatType dmg False False) = (if 0 <s dmg then dmg else 0) \<and>
      blockType (blockHit c attacker combatType dmg False False)
        = (if 0 <s dmg then BLOCK_NONE else BLOCK_ARMOR) \<and>
      dmg \<le>s damage (blockHit c attacker combatType dmg False False)) \<and>
   (isImmune c combatType \<longrightarrow>
      damage (blockHit c attacker combatType dmg False False) = 0)"
  by (auto simp add: blockHit_def mitigation_def Let_def word_sle_eq word_sless_alt)

theorem blockHit_unchecked_witness:
  "\<not> isImmune (guarded False) COMBAT_FIREDAMAGE \<and>
   damage (blockHit (guarded False) None COMBAT_FIREDAMAGE 50 False False) = 50 \<and>
   blockType (blockHit (guarded False) None COMBAT_FIREDAMAGE 50 False False) = BLOCK_NONE \<and>
   isImmune (guarded True) COMBAT_FIREDAMAGE \<and>
   damage (blockHit (guarded True) None COMBAT_FIREDAMAGE 50 False False) = 0"
  using blockHit_unchecked [of "guarded False" None COMBAT_FIREDAMAGE 50]
        blockHit_unchecked [of "guarded True" None COMBAT_FIREDAMAGE 50]
  by (simp add: guarded_def word_sless_alt)

section \<open>Properties of \<open>changeHealth\<close>\<close>

text \<open>Signed addition and subtraction do not wrap when the exact result fits in 32 bits.\<close>

lemma sint_range_i32: "- (2 ^ 31) \<le> sint (a::int32_t) \<and> sint a < 2 ^ 31"
  using sint_ge [of a] sint_lt [of a] by simp

lemma sint_add_i32:
  "- (2 ^ 31) \<le> sint (a::int32_t) + sint b \<Longrightarrow> sint a + sint b < 2 ^ 31
    \<Longrightarrow> sint (a + b) = sint a + sint b"
  by (simp add: sint_word_ariths signed_take_bit_int_eq_self)

lemma sint_sub_i32:
  "- (2 ^ 31) \<le> sint (a::int32_t) - sint b \<Longrightarrow> sint a - sint b < 2 ^ 31
    \<Longrightarrow> sint (a - b) = sint a - sint b"
  by (simp add: sint_word_ariths signed_take_bit_int_eq_self)

lemma changeHealth_not_positive:
  assumes "0 \<le>s health c" and "\<not> 0 <s d"
  shows "sint (health (fst (changeHealth c d s))) = max 0 (sint (health c) + sint d)"
proof -
  have r: "sint (health c + d) = sint (health c) + sint d"
    using assms sint_range_i32 [of d] sint_range_i32 [of "health c"]
    by (intro sint_add_i32) (auto simp: word_sle_eq word_sless_alt)
  show ?thesis using assms r
    by (auto simp: changeHealth_def Let_def max_i32_def word_sle_eq word_sless_alt)
qed

lemma changeHealth_positive:
  assumes "0 \<le>s health c" and "health c \<le>s healthMax c" and "0 <s d"
  shows "sint (health (fst (changeHealth c d s)))
           = min (sint (healthMax c)) (sint (health c) + sint d)"
proof -
  have r1: "sint (healthMax c - health c) = sint (healthMax c) - sint (health c)"
    using assms sint_range_i32 [of "healthMax c"] sint_range_i32 [of "health c"]
    by (intro sint_sub_i32) (auto simp: word_sle_eq word_sless_alt)
  have r2: "sint (health c + d) = sint (health c) + sint d" if "\<not> healthMax c - health c <s d"
    using assms that r1 sint_range_i32 [of "healthMax c"] sint_range_i32 [of "health c"]
    by (intro sint_add_i32) (auto simp: word_sle_eq word_sless_alt)
  show ?thesis using assms r1 r2
    by (auto simp: changeHealth_def Let_def min_i32_def getMaxHealth_def word_sle_eq word_sless_alt)
qed

lemma changeHealth_healthMax: "healthMax (fst (changeHealth c d s)) = healthMax c"
  by (simp add: changeHealth_def Let_def)

text \<open>
  C10, as stated: for a creature whose health is at most \<open>healthMax\<close>, health is never
  negative after \<open>changeHealth\<close>.  A creature of health \<open>-5\<close> and \<open>healthMax\<close> 100 that gains
  1 is left with health \<open>-4\<close>.
\<close>

theorem changeHealth_counterexample:
  "health \<lparr>health = -5, healthMax = 100\<rparr> \<le>s healthMax \<lparr>health = -5, healthMax = 100\<rparr> \<and>
   health (fst (changeHealth \<lparr>health = -5, healthMax = 100\<rparr> 1 True)) = -4 \<and>
   health (fst (changeHealth \<lparr>health = -5, healthMax = 100\<rparr> 1 True)) <s 0"
  by (simp add: changeHealth_def Let_def min_i32_def getMaxHealth_def word_sle_eq word_sless_alt)

text \<open>
  C10, amended.  For every creature whose health is between 0 and \<open>healthMax\<close> before the
  call, after \<open>changeHealth(d)\<close> health is \<open>max(0, health + d)\<close> when \<open>d\<close> is negative and
  \<open>min(healthMax, health + d)\<close> when \<open>d\<close> is positive, the sums being exact; health is
  then between 0 and \<open>healthMax\<close> again, and \<open>healthMax\<close> is unchanged.
\<close>

theorem changeHealth_bounds:
  assumes "0 \<le>s health c" and "health c \<le>s healthMax c"
  shows "(d <s 0 \<longrightarrow>
            sint (health (fst (changeHealth c d s))) = max 0 (sint (health c) + sint d)) \<and>
         (0 <s d \<longrightarrow>
            sint (health (fst (changeHealth c d s)))
              = min (sint (healthMax c)) (sint (health c) + sint d)) \<and>
         0 \<le>s health (fst (changeHealth c d s)) \<and>
         health (fst (changeHealth c d s)) \<le>s healthMax (fst (changeHealth c d s)) \<and>
         healthMax (fst (changeHealth c d s)) = healthMax c"
proof (cases "0 <s d")
  case True
  from changeHealth_positive [OF assms True, of s] assms True show ?thesis
    by (simp add: changeHealth_healthMax word_sle_eq word_sless_alt)
next
  case False
  from changeHealth_not_positive [OF assms(1) False, of s] assms False show ?thesis
    by (simp add: changeHealth_healthMax word_sle_eq word_sless_alt)
qed

theorem changeHealth_bounds_witness:
  "0 \<le>s health \<lparr>health = 40, healthMax = 100\<rparr> \<and>
   health \<lparr>health = 40, healthMax = 100\<rparr> \<le>s healthMax \<lparr>health = 40, healthMax = 100\<rparr> \<and>
   (-50 :: int32_t) <s 0 \<and>
   sint (health (fst (changeHealth \<lparr>health = 40, healthMax = 100\<rparr> (-50) True))) = 0 \<and>
   (0 :: int32_t) <s 80 \<and>
   sint (health (fst (changeHealth \<lparr>health = 40, healthMax = 100\<rparr> 80 True))) = 100"
proof -
  have a: "0 \<le>s health \<lparr>health = 40, healthMax = 100\<rparr>"
    by (simp add: word_sle_eq)
  have b: "health \<lparr>health = 40, healthMax = 100\<rparr> \<le>s healthMax \<lparr>health = 40, healthMax = 100\<rparr>"
    by (simp add: word_sle_eq)
  show ?thesis
    using a b changeHealth_bounds [OF a b, of "-50" True] changeHealth_bounds [OF a b, of 80 True]
    by (simp add: word_sless_alt)
qed

section \<open>Properties of \<open>onGainExperience\<close>\<close>

lemma awarded_append: "awarded (xs @ ys) = awarded xs + awarded ys"
  by (induction xs rule: awarded.induct) auto

lemma awarded_onGainExperience: "awarded (onGainExperience w c g) \<le> unat g - 1"
proof (induction w c g rule: onGainExperience.induct)
  case (1 w c g)
  show ?case
  proof (cases "g = 0")
    case True
    then show ?thesis by (simp add: onGainExperience.simps)
  next
    case nz: False
    show ?thesis
    proof (cases "getMaster w c")
      case None
      then show ?thesis using nz by (simp add: onGainExperience.simps)
    next
      case (Some m)
      have ih: "awarded (onGainExperience w m (g div 2)) \<le> unat (g div 2) - 1"
        using "1.IH" [OF nz Some] .
      have "awarded (onGainExperience w c g)
              = unat (g div 2) + awarded (onGainExperience w m (g div 2))"
        using nz Some by (simp add: onGainExperience.simps [of w c g] awarded_append)
      moreover have "unat (g div 2) = unat g div 2" by (simp add: unat_div)
      moreover have "0 < unat g" using nz by (simp add: unat_gt_0)
      ultimately show ?thesis using ih by linarith
    qed
  qed
qed

text \<open>
  C9.  A creature that is awarded \<open>E > 0\<close> and has a master hands its master exactly
  \<open>floor(E / 2)\<close>, which is less than \<open>E\<close>, and the master does the same in turn.  The
  experience received along the whole chain, \<open>E\<close> plus everything handed to masters, is
  less than \<open>2 E\<close>.  The recursion is on an amount that decreases, so the function is
  total whatever the master graph is.
\<close>

theorem onGainExperience_master_chain:
  assumes "gainExp \<noteq> 0" and "getMaster w c = Some m"
  shows "onGainExperience w c gainExp =
           GainExperience m (gainExp div 2) # onGainExperience w m (gainExp div 2)
           @ (if hasSpectators w c then [ExperienceMessage c (gainExp div 2)] else []) \<and>
         unat (gainExp div 2) = unat gainExp div 2 \<and>
         unat (gainExp div 2) < unat gainExp \<and>
         unat gainExp + awarded (onGainExperience w c gainExp) < 2 * unat gainExp"
proof -
  have pos: "0 < unat gainExp" using assms(1) by (simp add: unat_gt_0)
  have half: "unat (gainExp div 2) = unat gainExp div 2" by (simp add: unat_div)
  have "awarded (onGainExperience w c gainExp) \<le> unat gainExp - 1"
    by (rule awarded_onGainExperience)
  with pos half show ?thesis
    using assms by (simp add: onGainExperience.simps [of w c gainExp])
qed

theorem onGainExperience_master_chain_witness:
  "(100 :: uint64_t) \<noteq> 0 \<and> getMaster summonChain 0 = Some 1 \<and>
   onGainExperience summonChain 0 100 = GainExperience 1 50 # onGainExperience summonChain 1 50 \<and>
   unat (100 :: uint64_t) + awarded (onGainExperience summonChain 0 100) < 200"
proof -
  have a: "(100 :: uint64_t) \<noteq> 0" by simp
  have b: "getMaster summonChain 0 = Some 1" by (simp add: summonChain_def)
  have h: "hasSpectators summonChain 0 = False" by (simp add: summonChain_def)
  note t = onGainExperience_master_chain [OF a b]
  have e: "onGainExperience summonChain 0 100
             = GainExperience 1 50 # onGainExperience summonChain 1 50"
    using t [THEN conjunct1] by (simp add: h)
  have s: "unat (100 :: uint64_t) + awarded (onGainExperience summonChain 0 100) < 200"
    using t [THEN conjunct2, THEN conjunct2, THEN conjunct2] by simp
  from a b e s show ?thesis by blast
qed

text \<open>The amounts handed up that chain from 100: 50, 25, 12, 6 and 3.\<close>

lemma onGainExperience_summonChain:
  "onGainExperience summonChain 0 100 =
     [GainExperience 1 50, GainExperience 2 25, GainExperience 3 12, GainExperience 4 6,
      GainExperience 5 3]"
  by (simp add: onGainExperience.simps summonChain_def)

section \<open>Properties of \<open>setMaster\<close>\<close>

text \<open>
  C7.  \<open>setMaster\<close> returns false exactly when the creature has no master and the new
  master is null, and then changes nothing.  In every other case it returns true and the
  creature's master is the new master; the creature is appended to the summons of the new
  master and its first occurrence is removed from the summons of the old master (when the
  two are the same creature, the append comes first); no other master reference and no
  other summon list changes.
\<close>

theorem setMaster_links:
  "(fst (setMaster h self newMaster) = False \<longleftrightarrow> master (h self) = None \<and> newMaster = None) \<and>
   (master (h self) = None \<and> newMaster = None \<longrightarrow> snd (setMaster h self newMaster) = h) \<and>
   (\<not> (master (h self) = None \<and> newMaster = None) \<longrightarrow>
      master (snd (setMaster h self newMaster) self) = newMaster \<and>
      (\<forall>m. newMaster = Some m \<and> master (h self) \<noteq> Some m \<longrightarrow>
         summons (snd (setMaster h self newMaster) m) = summons (h m) @ [self]) \<and>
      (\<forall>om. master (h self) = Some om \<and> newMaster \<noteq> Some om \<longrightarrow>
         summons (snd (setMaster h self newMaster) om) = remove1 self (summons (h om))) \<and>
      (\<forall>m. newMaster = Some m \<and> master (h self) = Some m \<longrightarrow>
         summons (snd (setMaster h self newMaster) m) = remove1 self (summons (h m) @ [self])) \<and>
      (\<forall>c. c \<noteq> self \<longrightarrow> master (snd (setMaster h self newMaster) c) = master (h c)) \<and>
      (\<forall>c. newMaster \<noteq> Some c \<and> master (h self) \<noteq> Some c \<longrightarrow>
         summons (snd (setMaster h self newMaster) c) = summons (h c)))"
  by (auto simp: setMaster_def Let_def split: option.splits)

theorem setMaster_links_witness:
  "master (unlinked 2) = None \<and>
   fst (setMaster unlinked 2 None) = False \<and>
   snd (setMaster unlinked 2 None) = unlinked \<and>
   fst (setMaster unlinked 2 (Some 1)) = True \<and>
   master (snd (setMaster unlinked 2 (Some 1)) 2) = Some 1 \<and>
   summons (snd (setMaster unlinked 2 (Some 1)) 1) = [2] \<and>
   master (summoned 2) = Some 1 \<and>
   fst (setMaster summoned 2 (Some 3)) = True \<and>
   master (snd (setMaster summoned 2 (Some 3)) 2) = Some 3 \<and>
   summons (snd (setMaster summoned 2 (Some 3)) 3) = [2] \<and>
   summons (snd (setMaster summoned 2 (Some 3)) 1) = [] \<and>
   fst (setMaster summoned 2 None) = True \<and>
   master (snd (setMaster summoned 2 None) 2) = None \<and>
   summons (snd (setMaster summoned 2 None) 1) = [] \<and>
   summons (snd (setMaster summoned 2 (Some 1)) 1) = [2]"
  using setMaster_links [of unlinked 2 None] setMaster_links [of unlinked 2 "Some 1"]
        setMaster_links [of summoned 2 "Some 3"] setMaster_links [of summoned 2 None]
        setMaster_links [of summoned 2 "Some 1"]
  by (simp add: unlinked_def summoned_def)

section \<open>Properties of \<open>getWalkCache\<close>\<close>

text \<open>
  C8, as stated: the query returns 1 at the creature's own position, 2 when caching is
  disabled or the position is outside the cached radius, and the cached boolean
  otherwise.  With caching disabled the own position gets 2, not 1; and with caching
  enabled a position on another floor, one tile east of the creature, gets 0, which is
  neither 2 nor the cached boolean of that cell (1).
\<close>

theorem getWalkCache_counterexample:
  "getWalkCache dims11 False (Position 100 100 7) allWalkable (Position 100 100 7) = 2 \<and>
   getWalkCache dims11 True (Position 100 100 7) allWalkable (Position 101 100 6) = 0 \<and>
   allWalkable (maxWalkCacheHeight dims11 + 0) (maxWalkCacheWidth dims11 + 1)"
  by (simp add: getWalkCache_def allWalkable_def)

text \<open>
  C8, amended.  The query returns 2 whenever caching is disabled for the creature; with
  caching enabled it returns 0 for every position on another floor, 1 for the creature's
  own position, 2 for a position of the same floor outside the cached radius, and
  otherwise the cached boolean (1 for walkable, 0 for blocked).
\<close>

theorem getWalkCache_cases:
  "(\<not> useCacheMap \<longrightarrow> getWalkCache d useCacheMap myPos cache pos = 2) \<and>
   (useCacheMap \<and> getZ pos \<noteq> getZ myPos \<longrightarrow> getWalkCache d useCacheMap myPos cache pos = 0) \<and>
   (useCacheMap \<and> pos = myPos \<longrightarrow> getWalkCache d useCacheMap myPos cache pos = 1) \<and>
   (useCacheMap \<and> getZ pos = getZ myPos \<and> pos \<noteq> myPos \<and>
      (maxWalkCacheWidth d < \<bar>getOffsetX pos myPos\<bar> \<or> maxWalkCacheHeight d < \<bar>getOffsetY pos myPos\<bar>)
      \<longrightarrow> getWalkCache d useCacheMap myPos cache pos = 2) \<and>
   (useCacheMap \<and> getZ pos = getZ myPos \<and> pos \<noteq> myPos \<and>
      \<bar>getOffsetX pos myPos\<bar> \<le> maxWalkCacheWidth d \<and> \<bar>getOffsetY pos myPos\<bar> \<le> maxWalkCacheHeight d
      \<longrightarrow> getWalkCache d useCacheMap myPos cache pos
            = (if cache (maxWalkCacheHeight d + getOffsetY pos myPos)
                        (maxWalkCacheWidth d + getOffsetX pos myPos) then 1 else 0))"
  by (auto simp: getWalkCache_def Let_def)

theorem getWalkCache_cases_witness:
  "getWalkCache dims11 False (Position 100 100 7) allWalkable (Position 100 100 7) = 2 \<and>
   getWalkCache dims11 True (Position 100 100 7) allWalkable (Position 101 100 6) = 0 \<and>
   getWalkCache dims11 True (Position 100 100 7) allWalkable (Position 100 100 7) = 1 \<and>
   getWalkCache dims11 True (Position 100 100 7) allWalkable (Position 112 100 7) = 2 \<and>
   getWalkCache dims11 True (Position 100 100 7) allWalkable (Position 101 100 7) = 1"
  using getWalkCache_cases [of False dims11 "Position 100 100 7" allWalkable "Position 100 100 7"]
        getWalkCache_cases [of True dims11 "Position 100 100 7" allWalkable "Position 101 100 6"]
        getWalkCache_cases [of True dims11 "Position 100 100 7" allWalkable "Position 100 100 7"]
        getWalkCache_cases [of True dims11 "Position 100 100 7" allWalkable "Position 112 100 7"]
        getWalkCache_cases [of True dims11 "Position 100 100 7" allWalkable "Position 101 100 7"]
  by (simp add: dims11_def allWalkable_def getOffsetX_def getOffsetY_def)

section \<open>Properties of \<open>onWalk\<close>\<close>

text \<open>
  C6, as stated: when the move request fails, the queued direction list is cleared and
  the walk-abort notification fires.  A player with two directions queued, whose move is
  refused, keeps the other direction in the queue, and no abort notification is sent.
\<close>

theorem onWalk_move_failure_counterexample:
  "submittedStep blockedEnv (walking False) = Some DIRECTION_EAST \<and>
   internalMoveCreature blockedEnv DIRECTION_EAST \<noteq> RETURNVALUE_NOERROR \<and>
   listWalkDir (fst (onWalk blockedEnv (walking False))) = [DIRECTION_NORTH] \<and>
   OnWalkAborted \<notin> set (snd (onWalk blockedEnv (walking False)))"
  by (simp add: onWalk_def getNextStep_def Creature_getNextStep_def onWalk_dir_def
        submittedStep_def blockedEnv_def walking_def Let_def word_sle_eq)

text \<open>
  C6, amended.  In \<open>onWalk\<close>, whenever the submitted move request fails,
  \<open>forceUpdateFollowPath\<close> is set and a player is sent the cancel message and the cancel
  walk.  The walk-abort notification fires exactly when \<open>cancelNextWalk\<close> was set, and then
  the queued direction list is cleared; otherwise the list has only lost its last
  direction, the one of the step (the list of an Npc that takes a random step is empty
  before and after).
\<close>

theorem onWalk_move_failure:
  assumes "submittedStep env s = Some dir"
    and "internalMoveCreature env dir \<noteq> RETURNVALUE_NOERROR"
  shows "forceUpdateFollowPath (fst (onWalk env s)) \<and>
         listWalkDir (fst (onWalk env s))
           = (if cancelNextWalk s then [] else butlast (listWalkDir s)) \<and>
         (OnWalkAborted \<in> set (snd (onWalk env s)) \<longleftrightarrow> cancelNextWalk s) \<and>
         MoveCreature dir \<in> set (snd (onWalk env s)) \<and>
         (isPlayer env \<longrightarrow>
            SendCancelMessage (internalMoveCreature env dir) \<in> set (snd (onWalk env s)) \<and>
            SendCancelWalk \<in> set (snd (onWalk env s)))"
proof -
  from assms(1) have delay: "getWalkDelay env \<le>s 0"
    by (simp add: submittedStep_def split: if_splits)
  from assms(1) delay obtain evd s1 where step: "getNextStep env s = (Some (dir, evd), s1)"
    by (cases "getNextStep env s") (auto simp: submittedStep_def)
  have queue: "listWalkDir s1 = butlast (listWalkDir s)"
    and cancel: "cancelNextWalk s1 = cancelNextWalk s"
    and hicks: "OnWalkAborted \<notin> set evd"
    using step
    by (auto simp: getNextStep_def Npc_getNextStep_def Creature_getNextStep_def onWalk_dir_def
             split: option.splits if_splits)
  show ?thesis
    using delay step assms(2) queue cancel hicks
    by (simp add: onWalk_def Let_def split: prod.splits)
qed

theorem onWalk_move_failure_witness:
  "submittedStep blockedEnv (walking True) = Some DIRECTION_EAST \<and>
   internalMoveCreature blockedEnv DIRECTION_EAST \<noteq> RETURNVALUE_NOERROR \<and>
   isPlayer blockedEnv \<and> cancelNextWalk (walking True) \<and>
   forceUpdateFollowPath (fst (onWalk blockedEnv (walking True))) \<and>
   listWalkDir (fst (onWalk blockedEnv (walking True))) = [] \<and>
   OnWalkAborted \<in> set (snd (onWalk blockedEnv (walking True))) \<and>
   SendCancelWalk \<in> set (snd (onWalk blockedEnv (walking True))) \<and>
   submittedStep blockedNpc standing = Some DIRECTION_SOUTH \<and>
   internalMoveCreature blockedNpc DIRECTION_SOUTH \<noteq> RETURNVALUE_NOERROR \<and>
   forceUpdateFollowPath (fst (onWalk blockedNpc standing)) \<and>
   listWalkDir (fst (onWalk blockedNpc standing)) = [] \<and>
   OnWalkAborted \<notin> set (snd (onWalk blockedNpc standing))"
proof -
  have a: "submittedStep blockedEnv (walking True) = Some DIRECTION_EAST"
    by (simp add: submittedStep_def getNextStep_def Creature_getNextStep_def onWalk_dir_def
          blockedEnv_def walking_def word_sle_eq)
  have b: "internalMoveCreature blockedEnv DIRECTION_EAST \<noteq> RETURNVALUE_NOERROR"
    by (simp add: blockedEnv_def)
  have p: "isPlayer blockedEnv" by (simp add: blockedEnv_def)
  have k: "cancelNextWalk (walking True)" by (simp add: walking_def)
  have c: "submittedStep blockedNpc standing = Some DIRECTION_SOUTH"
    by (simp add: submittedStep_def getNextStep_def Npc_getNextStep_def Creature_getNextStep_def
          blockedNpc_def standing_def word_sle_eq)
  have d: "internalMoveCreature blockedNpc DIRECTION_SOUTH \<noteq> RETURNVALUE_NOERROR"
    by (simp add: blockedNpc_def)
  have e: "\<not> cancelNextWalk standing" "listWalkDir standing = []"
    by (simp_all add: standing_def)
  show ?thesis
    using a b p k c d e onWalk_move_failure [OF a b] onWalk_move_failure [OF c d] by simp
qed

section \<open>Properties of the double-precision arithmetic\<close>

text \<open>
  \<open>roundNearestEven p q\<close> is an integer nearest to \<open>p / q\<close>, and even when two integers
  are equally near.
\<close>

lemma roundNearestEven_near:
  assumes "0 < q"
  shows "\<bar>real_of_int (roundNearestEven p q) - real_of_int p / real_of_int q\<bar> \<le> 1 / 2"
proof -
  define f where "f = p div q"
  define r where "r = p mod q"
  have p: "p = q * f + r" by (simp add: f_def r_def)
  have r: "0 \<le> r" "r < q" using assms by (simp_all add: r_def)
  have quot: "real_of_int p / real_of_int q = real_of_int f + real_of_int r / real_of_int q"
    using assms by (simp add: p field_simps)
  have frac: "2 * r < q \<longleftrightarrow> real_of_int r / real_of_int q < 1 / 2"
             "q < 2 * r \<longleftrightarrow> 1 / 2 < real_of_int r / real_of_int q"
    using assms by (auto simp: field_simps)
  have pos: "0 \<le> real_of_int r / real_of_int q" "real_of_int r / real_of_int q < 1"
    using assms r by simp_all
  have "roundNearestEven p q = f \<and> real_of_int r / real_of_int q \<le> 1 / 2
        \<or> roundNearestEven p q = f + 1 \<and> 1 / 2 \<le> real_of_int r / real_of_int q"
    using frac unfolding roundNearestEven_def f_def [symmetric] r_def [symmetric] Let_def
    by (auto simp: not_less)
  then show ?thesis using pos quot by auto
qed

lemma roundNearestEven_tie:
  "2 * (p mod q) = q \<Longrightarrow> even (roundNearestEven p q)"
  by (simp add: roundNearestEven_def Let_def)

text \<open>The scaling of a quotient by a power of two.\<close>

lemma scaled_quotient:
  assumes "0 < q"
  shows "real_of_int (p * 2 ^ nat s) / real_of_int (q * 2 ^ nat (- s))
           = real_of_int p / real_of_int q * 2 powr real_of_int s"
  by (cases "0 \<le> s") (simp_all add: powr_real_of_int field_simps)

lemma bitlen_powr:
  assumes "0 < p"
  shows "2 powr real_of_int (bitlen p - 1) \<le> real_of_int p"
    and "real_of_int p < 2 powr real_of_int (bitlen p)"
proof -
  have b: "1 \<le> bitlen p" using assms by (simp add: bitlen_alt_def)
  have k1: "(2 :: real) powr real_of_int (bitlen p - 1) = 2 ^ nat (bitlen p - 1)"
    using b powr_real_of_int [of 2 "bitlen p - 1"] by simp
  have k2: "(2 :: real) powr real_of_int (bitlen p) = 2 ^ nat (bitlen p)"
    using b powr_real_of_int [of 2 "bitlen p"] by simp
  from bitlen_bounds [OF assms]
  have "real_of_int (2 ^ nat (bitlen p - 1)) \<le> real_of_int p"
       "real_of_int p < real_of_int (2 ^ nat (bitlen p))"
    by (simp_all only: of_int_le_iff of_int_less_iff)
  then have "(2 :: real) ^ nat (bitlen p - 1) \<le> real_of_int p"
       "real_of_int p < (2 :: real) ^ nat (bitlen p)"
    by simp_all
  then show "2 powr real_of_int (bitlen p - 1) \<le> real_of_int p"
    and "real_of_int p < 2 powr real_of_int (bitlen p)"
    by (simp_all only: k1 k2)
qed

text \<open>
  The quotient of two positive integers as a \<open>double\<close>: a significand from \<open>2 ^ 52\<close> to
  \<open>2 ^ 53\<close>, and a value within half a unit of the last place of the exact quotient.
\<close>

lemma divDouble_nearest:
  assumes "0 < p" and "0 < q"
  shows "2 ^ 52 \<le> fst (divDouble p q)" and "fst (divDouble p q) \<le> 2 ^ 53"
    and "\<bar>doubleValue (divDouble p q) - real_of_int p / real_of_int q\<bar>
           \<le> 2 powr real_of_int (snd (divDouble p q)) / 2"
proof -
  define x where "x = real_of_int p / real_of_int q"
  define e0 where "e0 = bitlen p - bitlen q"
  define e where "e = (if q * 2 ^ nat e0 \<le> p * 2 ^ nat (- e0) then e0 else e0 - 1)"
  define m where "m = roundNearestEven (p * 2 ^ nat (52 - e)) (q * 2 ^ nat (e - 52))"
  have d: "divDouble p q = (m, e - 52)"
    using assms(1) by (simp add: divDouble_def Let_def m_def e_def e0_def)
  have xpos: "0 < x" using assms by (simp add: x_def)
  have test: "q * 2 ^ nat e0 \<le> p * 2 ^ nat (- e0) \<longleftrightarrow> 2 powr real_of_int e0 \<le> x"
  proof -
    have "q * 2 ^ nat e0 \<le> p * 2 ^ nat (- e0)
            \<longleftrightarrow> real_of_int (q * 2 ^ nat e0) \<le> real_of_int (p * 2 ^ nat (- e0))"
      by (simp only: of_int_le_iff)
    also have "\<dots> \<longleftrightarrow> 1 \<le> real_of_int (p * 2 ^ nat (- e0)) / real_of_int (q * 2 ^ nat e0)"
      using assms(2) by (simp add: field_simps)
    also have "\<dots> \<longleftrightarrow> 1 \<le> x * 2 powr real_of_int (- e0)"
      using scaled_quotient [OF assms(2), of p "- e0"] by (simp add: x_def)
    also have "\<dots> \<longleftrightarrow> 2 powr real_of_int e0 \<le> x"
      by (simp add: powr_minus field_simps)
    finally show ?thesis .
  qed
  have "x < 2 powr real_of_int (bitlen p) / 2 powr real_of_int (bitlen q - 1)"
    unfolding x_def using bitlen_powr [OF assms(1)] bitlen_powr [OF assms(2)] assms
    by (intro frac_less) simp_all
  then have up: "x < 2 powr real_of_int (e0 + 1)"
    by (simp add: e0_def powr_diff [symmetric] algebra_simps)
  have "2 powr real_of_int (bitlen p - 1) / 2 powr real_of_int (bitlen q) < x"
    unfolding x_def using bitlen_powr [OF assms(1)] bitlen_powr [OF assms(2)] assms
    by (intro frac_less2) simp_all
  then have low: "2 powr real_of_int (e0 - 1) < x"
    by (simp add: e0_def powr_diff [symmetric] algebra_simps)
  have ex: "2 powr real_of_int e \<le> x \<and> x < 2 powr real_of_int (e + 1)"
    using test up low by (auto simp: e_def not_le)
  define y where "y = x * 2 powr real_of_int (52 - e)"
  have y: "real_of_int (p * 2 ^ nat (52 - e)) / real_of_int (q * 2 ^ nat (e - 52)) = y"
    using scaled_quotient [OF assms(2), of p "52 - e"] by (simp add: y_def x_def)
  have "2 powr real_of_int e * 2 powr real_of_int (52 - e) \<le> y"
    unfolding y_def using ex by (intro mult_right_mono) simp_all
  then have ylow: "4503599627370496 \<le> y" by (simp add: powr_add [symmetric])
  have "y < 2 powr real_of_int (e + 1) * 2 powr real_of_int (52 - e)"
    unfolding y_def using ex by (intro mult_strict_right_mono) simp_all
  then have yup: "y < 9007199254740992" by (simp add: powr_add [symmetric])
  have "0 < q * 2 ^ nat (e - 52)" using assms(2) by simp
  from roundNearestEven_near [OF this, of "p * 2 ^ nat (52 - e)"]
  have near: "\<bar>real_of_int m - y\<bar> \<le> 1 / 2" by (simp only: m_def y)
  have "(4503599627370495 :: real) < real_of_int m" using near ylow by linarith
  then have "4503599627370495 < m" by simp
  then show "2 ^ 52 \<le> fst (divDouble p q)" by (simp add: d)
  have "real_of_int m < (9007199254740993 :: real)" using near yup by linarith
  then have "m < 9007199254740993" by simp
  then show "fst (divDouble p q) \<le> 2 ^ 53" by (simp add: d)
  have "x = y * 2 powr real_of_int (e - 52)"
    by (simp add: y_def powr_add [symmetric])
  then have "doubleValue (divDouble p q) - x = (real_of_int m - y) * 2 powr real_of_int (e - 52)"
    by (simp add: d doubleValue_def algebra_simps)
  then have "\<bar>doubleValue (divDouble p q) - x\<bar> = \<bar>real_of_int m - y\<bar> * 2 powr real_of_int (e - 52)"
    by (simp add: abs_mult)
  also have "\<dots> \<le> 1 / 2 * 2 powr real_of_int (e - 52)"
    using near by (intro mult_right_mono) simp_all
  finally show "\<bar>doubleValue (divDouble p q) - real_of_int p / real_of_int q\<bar>
           \<le> 2 powr real_of_int (snd (divDouble p q)) / 2"
    by (simp add: d x_def)
qed

text \<open>The product of two positive doubles, likewise, and the floor.\<close>

lemma mulDouble_nearest:
  assumes "0 < fst a" and "0 < fst b"
  shows "2 ^ 52 \<le> fst (mulDouble a b)" and "fst (mulDouble a b) \<le> 2 ^ 53"
    and "\<bar>doubleValue (mulDouble a b) - doubleValue a * doubleValue b\<bar>
           \<le> 2 powr real_of_int (snd (mulDouble a b)) / 2"
proof -
  define m where "m = fst (divDouble (fst a * fst b) 1)"
  define e where "e = snd (divDouble (fst a * fst b) 1)"
  define k where "k = snd a + snd b"
  have pos: "0 < fst a * fst b" using assms by simp
  have d: "mulDouble a b = (m, e + k)"
    by (simp add: mulDouble_def toDouble_def m_def e_def k_def split: prod.splits)
  from divDouble_nearest(1,2) [OF pos, of 1]
  show "2 ^ 52 \<le> fst (mulDouble a b)" and "fst (mulDouble a b) \<le> 2 ^ 53"
    by (simp_all add: d m_def)
  from divDouble_nearest(3) [OF pos, of 1]
  have near: "\<bar>real_of_int m * 2 powr real_of_int e - real_of_int (fst a * fst b)\<bar>
                \<le> 2 powr real_of_int e / 2"
    by (simp add: doubleValue_def m_def e_def)
  have "doubleValue (mulDouble a b) - doubleValue a * doubleValue b
          = (real_of_int m * 2 powr real_of_int e - real_of_int (fst a * fst b))
            * 2 powr real_of_int k"
    by (simp add: d doubleValue_def k_def powr_add algebra_simps)
  then have "\<bar>doubleValue (mulDouble a b) - doubleValue a * doubleValue b\<bar>
          = \<bar>real_of_int m * 2 powr real_of_int e - real_of_int (fst a * fst b)\<bar>
            * 2 powr real_of_int k"
    by (simp add: abs_mult)
  also have "\<dots> \<le> 2 powr real_of_int e / 2 * 2 powr real_of_int k"
    using near by (intro mult_right_mono) simp_all
  finally show "\<bar>doubleValue (mulDouble a b) - doubleValue a * doubleValue b\<bar>
           \<le> 2 powr real_of_int (snd (mulDouble a b)) / 2"
    by (simp add: d powr_add)
qed

lemma floorDouble_floor: "floorDouble d = \<lfloor>doubleValue d\<rfloor>"
proof (cases "0 \<le> snd d")
  case True
  then have "doubleValue d = real_of_int (fst d * 2 ^ nat (snd d))"
    by (simp add: doubleValue_def powr_real_of_int)
  then have "\<lfloor>doubleValue d\<rfloor> = fst d * 2 ^ nat (snd d)" by (simp only: floor_of_int)
  then show ?thesis using True by (simp add: floorDouble_def)
next
  case False
  then have "doubleValue d = real_of_int (fst d) / real_of_int (2 ^ nat (- snd d))"
    by (simp add: doubleValue_def powr_real_of_int field_simps)
  then have "\<lfloor>doubleValue d\<rfloor> = fst d div 2 ^ nat (- snd d)"
    by (simp only: floor_divide_of_int_eq)
  then show ?thesis using False by (simp add: floorDouble_def)
qed

section \<open>Properties of the consumers of the damage ledger\<close>

lemma getKillers_active: "getKillers env (active env dm) = getKillers env dm"
  by (induction dm) (auto simp: active_def)

lemma scanEntries_mostDamage_active:
  "mostDamage acc = mostDamage acc' \<Longrightarrow> mostDamageCreature acc = mostDamageCreature acc' \<Longrightarrow>
   mostDamage (scanEntries env dm (active env es) acc) = mostDamage (scanEntries env dm es acc') \<and>
   mostDamageCreature (scanEntries env dm (active env es) acc)
     = mostDamageCreature (scanEntries env dm es acc')"
proof (induction es arbitrary: acc acc')
  case Nil
  then show ?case by (simp add: active_def)
next
  case (Cons e es)
  show ?case
  proof (cases "inFight env (snd e)")
    case True
    have "mostDamage (scanEntry env dm e acc) = mostDamage (scanEntry env dm e acc')"
         "mostDamageCreature (scanEntry env dm e acc) = mostDamageCreature (scanEntry env dm e acc')"
      using Cons.prems by (auto simp: scanEntry_def Let_def split: prod.splits)
    from Cons.IH [OF this] True show ?thesis by (simp add: active_def)
  next
    case False
    have "mostDamage acc = mostDamage (scanEntry env dm e acc')"
         "mostDamageCreature acc = mostDamageCreature (scanEntry env dm e acc')"
      using Cons.prems False by (auto simp: scanEntry_def Let_def split: prod.splits)
    from Cons.IH [OF this] False show ?thesis by (simp add: active_def)
  qed
qed

text \<open>The two counters of \<open>getDamageRatio\<close> are sums over the whole ledger.\<close>

lemma damageTotals_sums:
  "damageTotals dm a (t, d)
     = (t + damageSum dm, d + damageSum (filter (\<lambda>e. fst e = a) dm))"
  by (induction dm a "(t, d)" arbitrary: t d rule: damageTotals.induct)
     (simp_all add: damageSum_def add.assoc)

lemma getDamageRatio_sums:
  "getDamageRatio dm a =
     (if damageSum dm = 0 then (0, 0)
      else divDouble (uint (damageSum (filter (\<lambda>e. fst e = a) dm))) (uint (damageSum dm)))"
  by (simp add: getDamageRatio_def damageTotals_sums)

text \<open>The experience that the scan of \<open>onDeath\<close> has collected for a creature.\<close>

lemma scanEntry_experienceMap:
  "experienceMap (scanEntry env dm e acc) r =
     (if getCreatureByID env (fst e) \<and> fst e \<noteq> thisID env \<and> recipient env (fst e) = r
      then Some ((case experienceMap acc r of None \<Rightarrow> 0 | Some v \<Rightarrow> v)
                 + getGainedExperience env dm (fst e))
      else experienceMap acc r)"
  by (cases e) (simp add: scanEntry_def recipient_def Let_def split: option.splits)

lemma scanEntries_experienceMap:
  "experienceMap (scanEntries env dm es acc) r =
     (if sharesOf env es r = [] then experienceMap acc r
      else Some ((case experienceMap acc r of None \<Rightarrow> 0 | Some v \<Rightarrow> v)
                 + sum_list (map (\<lambda>e. getGainedExperience env dm (fst e)) (sharesOf env es r))))"
proof (induction es arbitrary: acc)
  case Nil
  show ?case by (simp add: sharesOf_def)
next
  case (Cons e es)
  show ?case
  proof (cases "getCreatureByID env (fst e) \<and> fst e \<noteq> thisID env \<and> recipient env (fst e) = r")
    case True
    then have here: "sharesOf env (e # es) r = e # sharesOf env es r"
      by (simp add: sharesOf_def)
    from True have acc: "experienceMap (scanEntry env dm e acc) r =
        Some ((case experienceMap acc r of None \<Rightarrow> 0 | Some v \<Rightarrow> v)
              + getGainedExperience env dm (fst e))"
      by (simp add: scanEntry_experienceMap)
    show ?thesis
      by (simp add: Cons.IH here acc add.assoc)
  next
    case False
    then have here: "sharesOf env (e # es) r = sharesOf env es r"
      by (auto simp: sharesOf_def)
    from False have acc: "experienceMap (scanEntry env dm e acc) r = experienceMap acc r"
      by (auto simp: scanEntry_experienceMap)
    show ?thesis
      by (simp add: Cons.IH here acc)
  qed
qed

text \<open>
  The arithmetic of the shares is that of the doubles: of 100 lost experience, the
  attacker with 29 of 100 damage gets 28, since the double nearest to 29/100 is below it
  and its product with 100 rounds to a double below 29.
\<close>

lemma getGainedExperience_rounding:
  "getDamageRatio freshLedger 1 = (5224175567749775, - 54) \<and>
   getGainedExperience fightEnv freshLedger 1 = 28 \<and>
   getGainedExperience fightEnv freshLedger 2 = 71"
  by (simp add: getGainedExperience_def getDamageRatio_def freshLedger_def fightEnv_def
        mulDouble_def toDouble_def floorDouble_def divDouble_def roundNearestEven_def
        compute_bitlen Let_def)

text \<open>
  C5, as stated: every consumer of the ledger counts an entry only if its last hit lies
  inside the combat-lock window.  In the example the entry of attacker 1 is outside the
  window.  \<open>getDamageRatio\<close> still counts its damage: attacker 2 gets the double nearest to
  7/10 and 70 of the 100 lost experience, not the ratio 1 and the 100 it has among the
  entries inside the window.  The scan of \<open>onDeath\<close> still gives attacker 1 an experience
  share, which it would not have on the entries inside the window.
\<close>

theorem ledger_consumers_counterexample:
  "\<not> inFight fightEnv \<lparr>total = 30, ticks = 0\<rparr> \<and>
   getDamageRatio staleLedger 2 = (6305039478318694, - 53) \<and>
   getDamageRatio (active fightEnv staleLedger) 2 = (4503599627370496, - 52) \<and>
   getGainedExperience fightEnv staleLedger 2 = 70 \<and>
   getGainedExperience fightEnv (active fightEnv staleLedger) 2 = 100 \<and>
   experienceMap (onDeath_scan fightEnv staleLedger) 1 = Some 30 \<and>
   experienceMap (onDeath_scan fightEnv (active fightEnv staleLedger)) 1 = None"
  by (simp add: getDamageRatio_def staleLedger_def active_def inFight_def fightEnv_def
        onDeath_scan_def scanStart_def scanEntry_def getGainedExperience_def
        mulDouble_def toDouble_def floorDouble_def divDouble_def roundNearestEven_def
        compute_bitlen Let_def word_sless_alt)

text \<open>
  C5, amended.  \<open>getKillers\<close> and the most-damage scan of \<open>onDeath\<close> count an entry only if
  its last hit lies inside the combat-lock window: they give the same result on the
  entries inside the window as on the whole ledger.  \<open>getDamageRatio\<close> and the experience
  shares built by \<open>onDeath\<close> count every entry, whatever the time of its last hit: the
  ratio is the quotient of the attacker's damage by the sum of the damage of all the
  entries of the ledger, and the share collected for a creature is the sum of the gained
  experience of all the entries whose attacker exists, is not the creature that died and
  has that creature as the recipient of its share.
\<close>

theorem ledger_consumers:
  "getKillers env (active env damageMap) = getKillers env damageMap \<and>
   mostDamageCreature (scanEntries env damageMap (active env damageMap) scanStart)
     = mostDamageCreature (onDeath_scan env damageMap) \<and>
   getDamageRatio damageMap attacker =
     (if damageSum damageMap = 0 then (0, 0)
      else divDouble (uint (damageSum (filter (\<lambda>e. fst e = attacker) damageMap)))
             (uint (damageSum damageMap))) \<and>
   experienceMap (onDeath_scan env damageMap) r =
     (if sharesOf env damageMap r = [] then None
      else Some (sum_list (map (\<lambda>e. getGainedExperience env damageMap (fst e))
                             (sharesOf env damageMap r))))"
proof -
  have md: "mostDamageCreature (scanEntries env damageMap (active env damageMap) scanStart)
              = mostDamageCreature (scanEntries env damageMap damageMap scanStart)"
    by (simp add: scanEntries_mostDamage_active)
  have em: "experienceMap (scanEntries env damageMap damageMap scanStart) r =
     (if sharesOf env damageMap r = [] then None
      else Some (sum_list (map (\<lambda>e. getGainedExperience env damageMap (fst e))
                             (sharesOf env damageMap r))))"
    by (simp add: scanEntries_experienceMap) (simp add: scanStart_def)
  have dr: "getDamageRatio damageMap attacker =
     (if damageSum damageMap = 0 then (0, 0)
      else divDouble (uint (damageSum (filter (\<lambda>e. fst e = attacker) damageMap)))
             (uint (damageSum damageMap)))"
    by (rule getDamageRatio_sums)
  from md em dr show ?thesis
    by (simp only: getKillers_active onDeath_scan_def)
qed

theorem ledger_consumers_witness:
  "getKillers fightEnv (active fightEnv staleLedger) = [2] \<and>
   getKillers fightEnv staleLedger = [2] \<and>
   mostDamageCreature (onDeath_scan fightEnv staleLedger) = Some 2 \<and>
   damageSum staleLedger = 100 \<and>
   getDamageRatio staleLedger 2 = divDouble 70 100 \<and>
   sharesOf fightEnv staleLedger 1 = [(1, \<lparr>total = 30, ticks = 0\<rparr>)] \<and>
   experienceMap (onDeath_scan fightEnv staleLedger) 1
     = Some (getGainedExperience fightEnv staleLedger 1)"
proof -
  have k: "getKillers fightEnv (active fightEnv staleLedger) = [2]"
    by (simp add: staleLedger_def active_def inFight_def fightEnv_def)
  have m: "mostDamageCreature (scanEntries fightEnv staleLedger (active fightEnv staleLedger) scanStart)
             = Some 2"
    by (simp add: staleLedger_def active_def inFight_def fightEnv_def scanStart_def
          scanEntry_def Let_def word_sless_alt)
  have s: "damageSum staleLedger = 100"
          "damageSum (filter (\<lambda>e. fst e = 2) staleLedger) = 70"
    by (simp_all add: damageSum_def staleLedger_def)
  have h: "sharesOf fightEnv staleLedger 1 = [(1, \<lparr>total = 30, ticks = 0\<rparr>)]"
    by (simp add: sharesOf_def recipient_def staleLedger_def fightEnv_def)
  show ?thesis
    using k m s h
      ledger_consumers [where env = fightEnv and damageMap = staleLedger
                          and attacker = 2 and r = 1]
    by simp
qed

section \<open>Properties of \<open>getStepDuration\<close>\<close>

subsection \<open>Bounds of the exponential\<close>

text \<open>
  The values of the curve are settled by bounds of the exponential at a few points.
  Each bound comes from \<open>exp t \<le> 1 + t + t\<^sup>2\<close> or \<open>1 + t \<le> exp t\<close> at a small \<open>t\<close>, squared
  as many times as it takes.
\<close>

lemma exp_square_le:
  fixes t a b s :: real
  assumes "exp t \<le> a" and "a * a \<le> b" and "s = 2 * t"
  shows "exp s \<le> b"
proof -
  have "0 \<le> a" using assms(1) exp_gt_zero [of t] by linarith
  have "exp s = exp t * exp t" using assms(3) by (simp add: exp_double power2_eq_square)
  also have "\<dots> \<le> a * a" using assms(1) \<open>0 \<le> a\<close> by (intro mult_mono) simp_all
  finally show ?thesis using assms(2) by simp
qed

lemma exp_square_ge:
  fixes t a b s :: real
  assumes "a \<le> exp t" and "0 \<le> a" and "b \<le> a * a" and "s = 2 * t"
  shows "b \<le> exp s"
proof -
  have "a * a \<le> exp t * exp t" using assms(1,2) by (intro mult_mono) simp_all
  also have "\<dots> = exp s" using assms(4) by (simp add: exp_double power2_eq_square)
  finally show ?thesis using assms(3) by simp
qed

lemma exp_upper_269: "exp (5.5922 :: real) \<le> 269.29"
proof -
  have e0: "exp (5.5922 / 8192 :: real) \<le> 1.000683107601118684"
    using exp_bound [of "5.5922 / 8192"] by (simp add: power2_eq_square)
  have e1: "exp (5.5922 / 4096 :: real) \<le> 1.001366681838232075"
    by (rule exp_square_le [OF e0]) simp_all
  have e2: "exp (5.5922 / 2048 :: real) \<le> 1.002735231495711104"
    by (rule exp_square_le [OF e1]) simp_all
  have e3: "exp (5.5922 / 1024 :: real) \<le> 1.005477944482757339"
    by (rule exp_square_le [OF e2]) simp_all
  have e4: "exp (5.5922 / 512 :: real) \<le> 1.01098589684127085"
    by (rule exp_square_le [OF e3]) simp_all
  have e5: "exp (5.5922 / 256 :: real) \<le> 1.022092483611948745"
    by (rule exp_square_le [OF e4]) simp_all
  have e6: "exp (5.5922 / 128 :: real) \<le> 1.044673045056041714"
    by (rule exp_square_le [OF e5]) simp_all
  have e7: "exp (5.5922 / 64 :: real) \<le> 1.091341771066662562"
    by (rule exp_square_le [OF e6]) simp_all
  have e8: "exp (5.5922 / 32 :: real) \<le> 1.191026861274919718"
    by (rule exp_square_le [OF e7]) simp_all
  have e9: "exp (5.5922 / 16 :: real) \<le> 1.418544984278386859"
    by (rule exp_square_le [OF e8]) simp_all
  have e10: "exp (5.5922 / 8 :: real) \<le> 2.012269872421368821"
    by (rule exp_square_le [OF e9]) simp_all
  have e11: "exp (5.5922 / 4 :: real) \<le> 4.049230039454711952"
    by (rule exp_square_le [OF e10]) simp_all
  have e12: "exp (5.5922 / 2 :: real) \<le> 16.396263912422408112"
    by (rule exp_square_le [OF e11]) simp_all
  have e13: "exp (5.5922 / 1 :: real) \<le> 268.837470285805373511"
    by (rule exp_square_le [OF e12]) simp_all
  from e13 show ?thesis by simp
qed



lemma exp_lower_268: "268.29 \<le> exp (5.59215 :: real)"
proof -
  have e0: "1.000021332359313964 \<le> exp (5.59215 / 262144 :: real)"
    using exp_ge_add_one_self [of "5.59215 / 262144"] by simp
  have e1: "1.000042665173697481 \<le> exp (5.59215 / 131072 :: real)"
    by (rule exp_square_ge [OF e0]) simp_all
  have e2: "1.000085332167712008 \<le> exp (5.59215 / 65536 :: real)"
    by (rule exp_square_ge [OF e1]) simp_all
  have e3: "1.000170671617002862 \<le> exp (5.59215 / 32768 :: real)"
    by (rule exp_square_ge [OF e2]) simp_all
  have e4: "1.000341372362806574 \<le> exp (5.59215 / 16384 :: real)"
    by (rule exp_square_ge [OF e3]) simp_all
  have e5: "1.000682861260703236 \<le> exp (5.59215 / 8192 :: real)"
    by (rule exp_square_ge [OF e4]) simp_all
  have e6: "1.001366188820907841 \<le> exp (5.59215 / 4096 :: real)"
    by (rule exp_square_ge [OF e5]) simp_all
  have e7: "1.002734244113710055 \<le> exp (5.59215 / 2048 :: real)"
    by (rule exp_square_ge [OF e6]) simp_all
  have e8: "1.005475964318293468 \<le> exp (5.59215 / 1024 :: real)"
    by (rule exp_square_ge [OF e7]) simp_all
  have e9: "1.010981914821802159 \<le> exp (5.59215 / 512 :: real)"
    by (rule exp_square_ge [OF e8]) simp_all
  have e10: "1.022084432096757635 \<le> exp (5.59215 / 256 :: real)"
    by (rule exp_square_ge [OF e9]) simp_all
  have e11: "1.044656586334551568 \<le> exp (5.59215 / 128 :: real)"
    by (rule exp_square_ge [OF e10]) simp_all
  have e12: "1.091307383372158393 \<le> exp (5.59215 / 64 :: real)"
    by (rule exp_square_ge [OF e11]) simp_all
  have e13: "1.190951805002587092 \<le> exp (5.59215 / 32 :: real)"
    by (rule exp_square_ge [OF e12]) simp_all
  have e14: "1.418366201838920228 \<le> exp (5.59215 / 16 :: real)"
    by (rule exp_square_ge [OF e13]) simp_all
  have e15: "2.011762682518964595 \<le> exp (5.59215 / 8 :: real)"
    by (rule exp_square_ge [OF e14]) simp_all
  have e16: "4.047189090775900335 \<le> exp (5.59215 / 4 :: real)"
    by (rule exp_square_ge [OF e15]) simp_all
  have e17: "16.379739536495458842 \<le> exp (5.59215 / 2 :: real)"
    by (rule exp_square_ge [OF e16]) simp_all
  have e18: "268.295867283432468861 \<le> exp (5.59215 / 1 :: real)"
    by (rule exp_square_ge [OF e17]) simp_all
  from e18 show ?thesis by simp
qed

subsection \<open>Values of the speed curve\<close>

text \<open>The half of the speed, and the logarithm on the range of the curve.\<close>

lemma sdiv_2: "(a :: int) sdiv 2 = (if 0 \<le> a then a div 2 else - ((- a) div 2))"
  by (simp add: signed_divide_int_def sgn_if)

lemma sdiv_2_mono: "(a :: int) \<le> b \<Longrightarrow> a sdiv 2 \<le> b sdiv 2"
  unfolding sdiv_2 by (auto simp: zdiv_mono1)


lemma curve_argument:
  fixes s :: int32_t
  assumes "- speedB < real_of_int (sint s)"
  shows "131.29 \<le> real_of_int (sint s sdiv 2) + speedB"
    and "real_of_int (sint s sdiv 2) + speedB \<le> 1073742085"
proof -
  have "- 261 \<le> sint s"
  proof (rule ccontr)
    assume "\<not> - 261 \<le> sint s"
    then have "sint s \<le> - 262" by simp
    then have "real_of_int (sint s) \<le> real_of_int (- 262)" by (simp only: of_int_le_iff)
    with assms show False by (simp add: speedB_def)
  qed
  from sdiv_2_mono [OF this] have "- 130 \<le> sint s sdiv 2" by (simp add: sdiv_2)
  then show "131.29 \<le> real_of_int (sint s sdiv 2) + speedB" by (simp add: speedB_def)
  have "sint s \<le> 2147483647" using sint_lt [of s] by simp
  from sdiv_2_mono [OF this] have "sint s sdiv 2 \<le> 1073741823" by (simp add: sdiv_2)
  then show "real_of_int (sint s sdiv 2) + speedB \<le> 1073742085" by (simp add: speedB_def)
qed


lemma speedCurve_lower:
  assumes "- speedB < real_of_int (sint s)"
  shows "- 4795 \<le> speedCurve s"
proof -
  define x where "x = real_of_int (sint s sdiv 2) + speedB"
  have x: "131.29 \<le> x" using curve_argument [OF assms] by (simp add: x_def)
  then have "0 \<le> ln x" by simp
  then have "0 \<le> speedA * ln x" by (simp add: speedA_def)
  then have "- 4795 \<le> (speedA * ln x + speedC) + 0.5" by (simp add: speedC_def)
  then have "- 4795 \<le> \<lfloor>(speedA * ln x + speedC) + 0.5\<rfloor>" by (simp add: le_floor_iff)
  then show ?thesis by (simp add: speedCurve_def x_def)
qed

text \<open>
  The curve is negative for the speeds from \<open>-261\<close> to 15 and not negative from 16
  upwards; at 15 its value under the floor is about \<open>-0.09\<close>, at 16 about \<open>3.1\<close>.
\<close>

lemma speedCurve_nonneg:
  assumes "16 \<le> sint s"
  shows "0 \<le> speedCurve s"
proof -
  define x where "x = real_of_int (sint s sdiv 2) + speedB"
  from sdiv_2_mono [OF assms] have "8 \<le> sint s sdiv 2" by (simp add: sdiv_2)
  then have x: "269.29 \<le> x" by (simp add: x_def speedB_def)
  have "5.5922 \<le> ln (269.29 :: real)" by (rule ln_ge_iff [THEN iffD2, OF _ exp_upper_269]) simp
  also have "\<dots> \<le> ln x" using x by simp
  finally have "speedA * 5.5922 \<le> speedA * ln x" by (simp add: speedA_def)
  then have "0 \<le> (speedA * ln x + speedC) + 0.5" by (simp add: speedA_def speedC_def)
  then have "0 \<le> \<lfloor>(speedA * ln x + speedC) + 0.5\<rfloor>" by simp
  then show ?thesis by (simp add: speedCurve_def x_def)
qed

lemma speedCurve_negative:
  assumes "- speedB < real_of_int (sint s)" and "sint s \<le> 15"
  shows "speedCurve s < 0"
proof -
  define x where "x = real_of_int (sint s sdiv 2) + speedB"
  have pos: "0 < x" using curve_argument(1) [OF assms(1)] by (simp add: x_def)
  from sdiv_2_mono [OF assms(2)] have "sint s sdiv 2 \<le> 7" by (simp add: sdiv_2)
  then have "x \<le> 268.29" by (simp add: x_def speedB_def)
  also have "\<dots> \<le> exp 5.59215" by (rule exp_lower_268)
  finally have "ln x \<le> ln (exp (5.59215 :: real))" using pos by (intro ln_mono) simp_all
  then have "ln x \<le> 5.59215" by simp
  then have "speedA * ln x \<le> speedA * 5.59215" by (simp add: speedA_def)
  then have "(speedA * ln x + speedC) + 0.5 < 0" by (simp add: speedA_def speedC_def)
  then have "\<lfloor>(speedA * ln x + speedC) + 0.5\<rfloor> < 0" by (simp add: floor_less_iff)
  then show ?thesis by (simp add: speedCurve_def x_def)
qed


subsection \<open>The effective speed and the duration\<close>










text \<open>
  For the speeds from \<open>-261\<close> to 15 the conversion of a negative curve value decides.
  At speed 0 the curve is negative; its low 32 bits are an effective speed
  above \<open>2 ^ 32 - 4796\<close>, and the duration on a tile without ground is 0, where the formula
  with \<open>max(1, curve)\<close> gives 150000.
\<close>

lemma getStepDuration_negative_curve:
  "speedCurve 0 < 0 \<and>
   getStepDuration (walker 0 False) = 0 \<and>
   specStepDuration (max 1 (speedCurve 0)) 150 = 150000"
proof -
  have guard: "- speedB < real_of_int (sint (0 :: int32_t))" by (simp add: speedB_def)
  have neg: "speedCurve 0 < 0" by (rule speedCurve_negative [OF guard]) simp
  have low: "- 4795 \<le> speedCurve 0" by (rule speedCurve_lower [OF guard])
  define c where "c = speedCurve 0"
  have cneg: "c < 0" and clow: "- 4795 \<le> c" using neg low by (simp_all add: c_def)
  have "c mod 4294967296 = (c + 4294967296) mod 4294967296" by simp
  also have "\<dots> = c + 4294967296" using cneg clow by (intro mod_pos_pos_trivial) simp_all
  finally have u: "uint (word_of_int c :: uint32_t) = c + 4294967296"
    by (simp add: uint_word_of_int)
  have nz: "(word_of_int c :: uint32_t) \<noteq> 0"
  proof
    assume "(word_of_int c :: uint32_t) = 0"
    then have "uint (word_of_int c :: uint32_t) = 0" by simp
    with u clow show False by simp
  qed
  have cs: "calculatedStepSpeed (walker 0 False) = word_of_int c"
    using guard nz by (simp add: calculatedStepSpeed_def walker_def Let_def c_def)
  have big: "(150000 :: uint32_t) < word_of_int c"
    using u clow by (simp add: word_less_def)
  have g: "1000 * groundSpeed (walker 0 False) = 150000"
    by (simp add: groundSpeed_def walker_def)
  have q: "(1000 * groundSpeed (walker 0 False)) div calculatedStepSpeed (walker 0 False) = 0"
    by (simp only: g cs div_word_less [OF big])
  have d: "getStepDuration (walker 0 False) = 0"
    by (simp add: getStepDuration_def q Let_def)
  have m: "max 1 (speedCurve 0) = 1" using neg by simp
  have f: "specStepDuration (max 1 (speedCurve 0)) 150 = 150000"
    by (simp add: m specStepDuration_def)
  from neg d f show ?thesis by simp
qed

text \<open>
  A ground friction of 4294968 or more makes \<open>1000 * groundSpeed\<close> exceed 32 bits: at speed
  \<open>-300\<close>, where the effective speed is 1, the duration on such a ground is 750.
\<close>

lemma getStepDuration_large_friction:
  "getStepDuration ((walker (- 300) False)\<lparr>getGround := Some 4294968\<rparr>) = 750 \<and>
   specStepDuration (effectiveSpeed (- 300)) (groundFriction (Some 4294968)) = 4294968000"
proof -
  have s: "sint (- 300 :: int32_t) = - 300" by simp
  have c: "calculatedStepSpeed ((walker (- 300) False)\<lparr>getGround := Some 4294968\<rparr>) = 1"
    by (simp add: calculatedStepSpeed_def walker_def Let_def s speedB_def)
  have e: "effectiveSpeed (- 300) = 1" by (simp add: effectiveSpeed_def s speedB_def)
  have g: "groundSpeed ((walker (- 300) False)\<lparr>getGround := Some 4294968\<rparr>) = 4294968"
    by (simp add: groundSpeed_def walker_def)
  have d: "getStepDuration ((walker (- 300) False)\<lparr>getGround := Some 4294968\<rparr>) = 750"
    by (simp add: getStepDuration_def c g Let_def) (simp add: walker_def)
  have f: "specStepDuration (effectiveSpeed (- 300)) (groundFriction (Some 4294968)) = 4294968000"
    by (simp add: e specStepDuration_def groundFriction_def)
  from d f show ?thesis by simp
qed

section \<open>Properties of the maintenance of the perception cache\<close>

subsection \<open>What each loop leaves in a cell\<close>

lemma foldl_upto_last: "i \<le> j \<Longrightarrow> foldl f s [i..j] = f (foldl f s [i..j - 1]) j"
  by (subst upto_rec2) simp_all

lemma foldl_rev_upto_last: "i \<le> j \<Longrightarrow> foldl f s (rev [i..j]) = foldl f (f s j) (rev [i..j - 1])"
  by (subst upto_rec2) simp_all

lemma updateRow_loop:
  assumes "\<bar>dy\<bar> \<le> maxWalkCacheHeight d"
    and "- maxWalkCacheWidth d - 1 \<le> hi" and "hi \<le> maxWalkCacheWidth d"
  shows "foldl (\<lambda>c x. updateTileCache_offset d (t x) x dy c) c [- maxWalkCacheWidth d .. hi] r k =
         (if r = maxWalkCacheHeight d + dy \<and> 0 \<le> k \<and> k \<le> maxWalkCacheWidth d + hi
          then tileWalkable (t (k - maxWalkCacheWidth d)) else c r k)"
  using assms(2,3)
proof (induction hi rule: int_ge_induct)
  case base
  then show ?case by auto
next
  case (step i)
  then have le: "- maxWalkCacheWidth d \<le> i + 1" and ih:
    "foldl (\<lambda>c x. updateTileCache_offset d (t x) x dy c) c [- maxWalkCacheWidth d .. i] r k =
         (if r = maxWalkCacheHeight d + dy \<and> 0 \<le> k \<and> k \<le> maxWalkCacheWidth d + i
          then tileWalkable (t (k - maxWalkCacheWidth d)) else c r k)"
    and hi: "i + 1 \<le> maxWalkCacheWidth d"
    by simp_all
  have ab: "\<bar>i + 1\<bar> \<le> maxWalkCacheWidth d" using le hi by linarith
  show ?case
    using ih assms(1) ab
    by (simp add: foldl_upto_last [OF le] updateTileCache_offset_def) (auto simp: fun_upd_def)
qed

lemma updateRow_apply:
  assumes "\<bar>dy\<bar> \<le> maxWalkCacheHeight d" and "0 \<le> maxWalkCacheWidth d"
  shows "updateRow d g p dy c r k =
         (if r = maxWalkCacheHeight d + dy \<and> 0 \<le> k \<and> k \<le> 2 * maxWalkCacheWidth d
          then tileWalkable (g (Position (getX p + (k - maxWalkCacheWidth d)) (getY p + dy) (getZ p)))
          else c r k)"
  using updateRow_loop [OF assms(1), of "maxWalkCacheWidth d"
      "\<lambda>x. g (Position (getX p + x) (getY p + dy) (getZ p))" c r k] assms(2)
  by (simp add: updateRow_def)

lemma updateColumn_loop:
  assumes "\<bar>dx\<bar> \<le> maxWalkCacheWidth d"
    and "- maxWalkCacheHeight d - 1 \<le> hi" and "hi \<le> maxWalkCacheHeight d"
  shows "foldl (\<lambda>c y. updateTileCache_offset d (t y) dx y c) c [- maxWalkCacheHeight d .. hi] r k =
         (if k = maxWalkCacheWidth d + dx \<and> 0 \<le> r \<and> r \<le> maxWalkCacheHeight d + hi
          then tileWalkable (t (r - maxWalkCacheHeight d)) else c r k)"
  using assms(2,3)
proof (induction hi rule: int_ge_induct)
  case base
  then show ?case by auto
next
  case (step i)
  then have le: "- maxWalkCacheHeight d \<le> i + 1" and ih:
    "foldl (\<lambda>c y. updateTileCache_offset d (t y) dx y c) c [- maxWalkCacheHeight d .. i] r k =
         (if k = maxWalkCacheWidth d + dx \<and> 0 \<le> r \<and> r \<le> maxWalkCacheHeight d + i
          then tileWalkable (t (r - maxWalkCacheHeight d)) else c r k)"
    and hi: "i + 1 \<le> maxWalkCacheHeight d"
    by simp_all
  have ab: "\<bar>i + 1\<bar> \<le> maxWalkCacheHeight d" using le hi by linarith
  show ?case
    using ih assms(1) ab
    by (simp add: foldl_upto_last [OF le] updateTileCache_offset_def) (auto simp: fun_upd_def)
qed

lemma updateColumn_apply:
  assumes "\<bar>dx\<bar> \<le> maxWalkCacheWidth d" and "0 \<le> maxWalkCacheHeight d"
  shows "updateColumn d g p dx c r k =
         (if k = maxWalkCacheWidth d + dx \<and> 0 \<le> r \<and> r \<le> 2 * maxWalkCacheHeight d
          then tileWalkable (g (Position (getX p + dx) (getY p + (r - maxWalkCacheHeight d)) (getZ p)))
          else c r k)"
  using updateColumn_loop [OF assms(1), of "maxWalkCacheHeight d"
      "\<lambda>y. g (Position (getX p + dx) (getY p + y) (getZ p))" c r k] assms(2)
  by (simp add: updateColumn_def)

lemma updateMapCache_rows:
  "updateMapCache d g p c =
     foldl (\<lambda>c y. updateRow d g p y c) c [- maxWalkCacheHeight d .. maxWalkCacheHeight d]"
  by (simp add: updateMapCache_def updateRow_def updateTileCache_def getOffsetX_def getOffsetY_def)

lemma updateMapCache_loop:
  assumes "0 \<le> maxWalkCacheWidth d"
    and "- maxWalkCacheHeight d - 1 \<le> hi" and "hi \<le> maxWalkCacheHeight d"
  shows "foldl (\<lambda>c y. updateRow d g p y c) c [- maxWalkCacheHeight d .. hi] r k =
         (if 0 \<le> r \<and> r \<le> maxWalkCacheHeight d + hi \<and> 0 \<le> k \<and> k \<le> 2 * maxWalkCacheWidth d
          then tileWalkable (g (Position (getX p + (k - maxWalkCacheWidth d))
                                          (getY p + (r - maxWalkCacheHeight d)) (getZ p)))
          else c r k)"
  using assms(2,3)
proof (induction hi rule: int_ge_induct)
  case base
  then show ?case by auto
next
  case (step i)
  then have le: "- maxWalkCacheHeight d \<le> i + 1" and ih:
    "foldl (\<lambda>c y. updateRow d g p y c) c [- maxWalkCacheHeight d .. i] r k =
         (if 0 \<le> r \<and> r \<le> maxWalkCacheHeight d + i \<and> 0 \<le> k \<and> k \<le> 2 * maxWalkCacheWidth d
          then tileWalkable (g (Position (getX p + (k - maxWalkCacheWidth d))
                                          (getY p + (r - maxWalkCacheHeight d)) (getZ p)))
          else c r k)"
    and hi: "i + 1 \<le> maxWalkCacheHeight d"
    by simp_all
  have ab: "\<bar>i + 1\<bar> \<le> maxWalkCacheHeight d" using le hi by linarith
  show ?case
    using ih le
    by (auto simp: foldl_upto_last [OF le] updateRow_apply [OF ab assms(1)])
qed

lemma updateMapCache_apply:
  assumes "0 \<le> maxWalkCacheWidth d" and "0 \<le> maxWalkCacheHeight d"
  shows "updateMapCache d g p c r k =
         (if 0 \<le> r \<and> r \<le> 2 * maxWalkCacheHeight d \<and> 0 \<le> k \<and> k \<le> 2 * maxWalkCacheWidth d
          then tileWalkable (g (Position (getX p + (k - maxWalkCacheWidth d))
                                          (getY p + (r - maxWalkCacheHeight d)) (getZ p)))
          else c r k)"
  using updateMapCache_loop [OF assms(1), of "maxWalkCacheHeight d" g p c r k] assms(2)
  by (simp add: updateMapCache_rows)

lemma copyRow_apply: "copyRow c dst src r = (if r = dst then c src else c r)"
  by (simp add: copyRow_def)

lemma copyCell_apply:
  "copyCell c y dst src r k = (if r = y \<and> k = dst then c y src else c r k)"
  by (simp add: copyCell_def)

lemma shiftRowsSouth_loop:
  assumes "- 1 \<le> n"
  shows "foldl (\<lambda>c y. copyRow c (y + 1) y) c (rev [0 .. n]) r
           = (if 1 \<le> r \<and> r \<le> n + 1 then c (r - 1) else c r)"
proof -
  define f where "f = (\<lambda>(c::MapCache) y. copyRow c (y + 1) y)"
  have fa: "f c y r = (if r = y + 1 then c y else c r)" for c y r
    by (simp add: f_def copyRow_apply)
  have "foldl f c (rev [0 .. n]) r = (if 1 \<le> r \<and> r \<le> n + 1 then c (r - 1) else c r)"
    using assms
  proof (induction n arbitrary: c rule: int_ge_induct)
    case base
    show ?case by auto
  next
    case (step i)
    have le: "(0::int) \<le> i + 1" using step.hyps by simp
    have "foldl f c (rev [0 .. i + 1]) r = foldl f (f c (i + 1)) (rev [0 .. i]) r"
      by (simp add: foldl_rev_upto_last [OF le])
    also have "\<dots> = (if 1 \<le> r \<and> r \<le> i + 1 then f c (i + 1) (r - 1) else f c (i + 1) r)"
      by (rule step.IH)
    also have "\<dots> = (if 1 \<le> r \<and> r \<le> i + 1 + 1 then c (r - 1) else c r)"
      using step.hyps by (auto simp: fa ac_simps)
    finally show ?case .
  qed
  then show ?thesis by (simp add: f_def)
qed

lemma shiftRowsNorth_loop:
  assumes "- 1 \<le> n"
  shows "foldl (\<lambda>c y. copyRow c y (y + 1)) c [0 .. n] r
           = (if 0 \<le> r \<and> r \<le> n then c (r + 1) else c r)"
proof -
  define f where "f = (\<lambda>(c::MapCache) y. copyRow c y (y + 1))"
  have fa: "f c y r = (if r = y then c (y + 1) else c r)" for c y r
    by (simp add: f_def copyRow_apply)
  have "foldl f c [0 .. n] r = (if 0 \<le> r \<and> r \<le> n then c (r + 1) else c r)" for r
    using assms
  proof (induction n arbitrary: r rule: int_ge_induct)
    case base
    show ?case by auto
  next
    case (step i)
    have le: "(0::int) \<le> i + 1" using step.hyps by simp
    have "foldl f c [0 .. i + 1] r = f (foldl f c [0 .. i]) (i + 1) r"
      by (simp add: foldl_upto_last [OF le])
    also have "\<dots> = (if r = i + 1 then foldl f c [0 .. i] (i + 1 + 1) else foldl f c [0 .. i] r)"
      by (simp add: fa)
    also have "\<dots> = (if 0 \<le> r \<and> r \<le> i + 1 then c (r + 1) else c r)"
      using step.hyps by (auto simp: step.IH)
    finally show ?case .
  qed
  then show ?thesis by (simp add: f_def)
qed

lemma shiftWest_row_loop:
  assumes "- 1 \<le> m"
  shows "foldl (\<lambda>c x. copyCell c y x (x + 1)) c [0 .. m] r k
           = (if r = y \<and> 0 \<le> k \<and> k \<le> m then c y (k + 1) else c r k)"
proof -
  define f where "f = (\<lambda>(c::MapCache) x. copyCell c y x (x + 1))"
  have fa: "f c x r k = (if r = y \<and> k = x then c y (x + 1) else c r k)" for c x r k
    by (simp add: f_def copyCell_apply)
  have "foldl f c [0 .. m] r k
          = (if r = y \<and> 0 \<le> k \<and> k \<le> m then c y (k + 1) else c r k)" for r k
    using assms
  proof (induction m arbitrary: r k rule: int_ge_induct)
    case base
    show ?case by auto
  next
    case (step i)
    have le: "(0::int) \<le> i + 1" using step.hyps by simp
    have "foldl f c [0 .. i + 1] r k = f (foldl f c [0 .. i]) (i + 1) r k"
      by (simp add: foldl_upto_last [OF le])
    also have "\<dots> = (if r = y \<and> k = i + 1 then foldl f c [0 .. i] y (i + 1 + 1)
                        else foldl f c [0 .. i] r k)"
      by (simp add: fa)
    also have "\<dots> = (if r = y \<and> 0 \<le> k \<and> k \<le> i + 1 then c y (k + 1) else c r k)"
      using step.hyps by (auto simp: step.IH)
    finally show ?case .
  qed
  then show ?thesis by (simp add: f_def)
qed

lemma shiftEast_row_loop:
  assumes "- 1 \<le> m"
  shows "foldl (\<lambda>c x. copyCell c y (x + 1) x) c (rev [0 .. m]) r k
           = (if r = y \<and> 1 \<le> k \<and> k \<le> m + 1 then c y (k - 1) else c r k)"
proof -
  define f where "f = (\<lambda>(c::MapCache) x. copyCell c y (x + 1) x)"
  have fa: "f c x r k = (if r = y \<and> k = x + 1 then c y x else c r k)" for c x r k
    by (simp add: f_def copyCell_apply)
  have "foldl f c (rev [0 .. m]) r k
          = (if r = y \<and> 1 \<le> k \<and> k \<le> m + 1 then c y (k - 1) else c r k)"
    using assms
  proof (induction m arbitrary: c rule: int_ge_induct)
    case base
    show ?case by auto
  next
    case (step i)
    have le: "(0::int) \<le> i + 1" using step.hyps by simp
    have "foldl f c (rev [0 .. i + 1]) r k = foldl f (f c (i + 1)) (rev [0 .. i]) r k"
      by (simp add: foldl_rev_upto_last [OF le])
    also have "\<dots> = (if r = y \<and> 1 \<le> k \<and> k \<le> i + 1 then f c (i + 1) y (k - 1)
                        else f c (i + 1) r k)"
      by (rule step.IH)
    also have "\<dots> = (if r = y \<and> 1 \<le> k \<and> k \<le> i + 1 + 1 then c y (k - 1) else c r k)"
      using step.hyps by (auto simp: fa ac_simps)
    finally show ?case .
  qed
  then show ?thesis by (simp add: f_def)
qed

text \<open>A loop over rows whose body touches its own row only.\<close>

lemma rows_loop:
  assumes body: "\<And>c y r k. f c y r k = (if r = y \<and> P k then h (c y) k else c r k)"
    and "sy - 1 \<le> ey"
  shows "foldl f c [sy .. ey] r k
           = (if sy \<le> r \<and> r \<le> ey \<and> P k then h (c r) k else c r k)"
proof -
  have "foldl f c [sy .. ey] r k
          = (if sy \<le> r \<and> r \<le> ey \<and> P k then h (c r) k else c r k)" for r k
    using assms(2)
  proof (induction ey arbitrary: r k rule: int_ge_induct)
    case base
    show ?case by auto
  next
    case (step i)
    have le: "sy \<le> i + 1" using step.hyps by simp
    have "foldl f c [sy .. i + 1] r k = f (foldl f c [sy .. i]) (i + 1) r k"
      by (simp add: foldl_upto_last [OF le])
    also have "\<dots> = (if r = i + 1 \<and> P k then h (foldl f c [sy .. i] (i + 1)) k
                        else foldl f c [sy .. i] r k)"
      by (simp add: body)
    also have "foldl f c [sy .. i] (i + 1) = c (i + 1)"
      by (rule ext) (simp add: step.IH)
    also have "(if r = i + 1 \<and> P k then h (c (i + 1)) k else foldl f c [sy .. i] r k)
                 = (if sy \<le> r \<and> r \<le> i + 1 \<and> P k then h (c r) k else c r k)"
      using step.hyps by (auto simp: step.IH)
    finally show ?case .
  qed
  then show ?thesis .
qed

lemma shiftColumnsWest_apply:
  assumes "0 \<le> maxWalkCacheWidth d"
  shows "shiftColumnsWest d sy ey c r k =
           (if sy \<le> r \<and> r \<le> ey \<and> 0 \<le> k \<and> k \<le> 2 * maxWalkCacheWidth d - 1
            then c r (k + 1) else c r k)"
proof (cases "sy - 1 \<le> ey")
  case True
  have m: "- 1 \<le> mapWalkWidth d - 2" using assms by (simp add: mapWalkWidth_def)
  have row: "foldl (\<lambda>c x. copyCell c y x (x + 1)) c [0 .. mapWalkWidth d - 2] r k
               = (if r = y \<and> (0 \<le> k \<and> k \<le> mapWalkWidth d - 2) then c y (k + 1) else c r k)"
    for c y r k
    by (rule shiftWest_row_loop [OF m])
  have "shiftColumnsWest d sy ey c r k =
          (if sy \<le> r \<and> r \<le> ey \<and> (0 \<le> k \<and> k \<le> mapWalkWidth d - 2)
           then c r (k + 1) else c r k)"
    unfolding shiftColumnsWest_def
    by (rule rows_loop [where h = "\<lambda>row k. row (k + 1)", OF row True])
  then show ?thesis by (simp add: mapWalkWidth_def)
next
  case False
  then show ?thesis by (auto simp: shiftColumnsWest_def)
qed

lemma shiftColumnsEast_apply:
  assumes "0 \<le> maxWalkCacheWidth d"
  shows "shiftColumnsEast d sy ey c r k =
           (if sy \<le> r \<and> r \<le> ey \<and> 1 \<le> k \<and> k \<le> 2 * maxWalkCacheWidth d
            then c r (k - 1) else c r k)"
proof (cases "sy - 1 \<le> ey")
  case True
  have m: "- 1 \<le> mapWalkWidth d - 2" using assms by (simp add: mapWalkWidth_def)
  have row: "foldl (\<lambda>c x. copyCell c y (x + 1) x) c (rev [0 .. mapWalkWidth d - 2]) r k
               = (if r = y \<and> (1 \<le> k \<and> k \<le> mapWalkWidth d - 2 + 1) then c y (k - 1) else c r k)"
    for c y r k
    by (rule shiftEast_row_loop [OF m])
  have "shiftColumnsEast d sy ey c r k =
          (if sy \<le> r \<and> r \<le> ey \<and> (1 \<le> k \<and> k \<le> mapWalkWidth d - 2 + 1)
           then c r (k - 1) else c r k)"
    unfolding shiftColumnsEast_def
    by (rule rows_loop [where h = "\<lambda>row k. row (k - 1)", OF row True])
  then show ?thesis by (simp add: mapWalkWidth_def)
next
  case False
  then show ?thesis by (auto simp: shiftColumnsEast_def)
qed

lemma shiftRowsSouth_apply:
  assumes "0 \<le> maxWalkCacheHeight d"
  shows "shiftRowsSouth d c r k =
           (if 1 \<le> r \<and> r \<le> 2 * maxWalkCacheHeight d then c (r - 1) k else c r k)"
proof -
  have n: "- 1 \<le> mapWalkHeight d - 2" using assms by (simp add: mapWalkHeight_def)
  have "shiftRowsSouth d c r
          = (if 1 \<le> r \<and> r \<le> mapWalkHeight d - 2 + 1 then c (r - 1) else c r)"
    unfolding shiftRowsSouth_def by (rule shiftRowsSouth_loop [OF n])
  then show ?thesis by (simp add: mapWalkHeight_def)
qed

lemma shiftRowsNorth_apply:
  assumes "0 \<le> maxWalkCacheHeight d"
  shows "shiftRowsNorth d c r k =
           (if 0 \<le> r \<and> r \<le> 2 * maxWalkCacheHeight d - 1 then c (r + 1) k else c r k)"
proof -
  have n: "- 1 \<le> mapWalkHeight d - 2" using assms by (simp add: mapWalkHeight_def)
  have "shiftRowsNorth d c r
          = (if 0 \<le> r \<and> r \<le> mapWalkHeight d - 2 then c (r + 1) else c r)"
    unfolding shiftRowsNorth_def by (rule shiftRowsNorth_loop [OF n])
  then show ?thesis by (simp add: mapWalkHeight_def)
qed

lemma updateMapCache_rebuilt:
  assumes "0 \<le> maxWalkCacheWidth d" and "0 \<le> maxWalkCacheHeight d"
  shows "updateMapCache d g p c r k = (if inCache d r k then rebuilt d g p r k else c r k)"
  by (simp add: updateMapCache_apply [OF assms] inCache_def rebuilt_def)

subsection \<open>One step in each direction\<close>

lemmas cache_defs = stepCache_def onCreatureMove_cache_def updateTileCache_def
  updateTileCache_offset_def getOffsetX_def getOffsetY_def getDistanceY_def shiftRows_def
  mapWalkHeight_def inCache_def Let_def

lemma step_stay:
  assumes W: "0 \<le> maxWalkCacheWidth d" and H: "0 \<le> maxWalkCacheHeight d"
    and c: "\<And>r k. inCache d r k \<Longrightarrow> c r k = rebuilt d g (Position x0 y0 z0) r k"
    and rk: "inCache d r k"
  shows "stepCache d g (Position x0 y0 z0) (Position x0 y0 z0) c r k
           = rebuilt d g (Position x0 y0 z0) r k"
  using rk c [OF rk] W H
  by (auto simp: cache_defs rebuilt_def)

lemma step_north:
  assumes W: "0 \<le> maxWalkCacheWidth d" and H: "0 \<le> maxWalkCacheHeight d"
    and c: "\<And>r k. inCache d r k \<Longrightarrow> c r k = rebuilt d g (Position x0 y0 z0) r k"
    and rk: "inCache d r k"
  shows "stepCache d g (Position x0 y0 z0) (Position (x0) (y0 - 1) z0) c r k
           = rebuilt d g (Position (x0) (y0 - 1) z0) r k"
proof -
  have mH: "\<bar>- maxWalkCacheHeight d\<bar> \<le> maxWalkCacheHeight d" using H by simp
  have e: "stepCache d g (Position x0 y0 z0) (Position (x0) (y0 - 1) z0) c r k =
     (if r = maxWalkCacheHeight d + 1 \<and> k = maxWalkCacheWidth d \<and> 1 \<le> maxWalkCacheHeight d
      then tileWalkable (g (Position x0 y0 z0))
      else if r = 0 then rebuilt d g (Position (x0) (y0 - 1) z0) r k
      else c (r - 1) (k))"
    using rk W H
    by (auto simp: cache_defs rebuilt_def updateRow_apply [OF mH W] shiftRowsSouth_apply [OF H])
  show ?thesis
  proof (cases "r = maxWalkCacheHeight d + 1 \<and> k = maxWalkCacheWidth d \<and> 1 \<le> maxWalkCacheHeight d")
    case True
    then have "rebuilt d g (Position (x0) (y0 - 1) z0) r k = tileWalkable (g (Position x0 y0 z0))"
      by (simp add: rebuilt_def)
    with e True show ?thesis by simp
  next
    case old: False
    show ?thesis
    proof (cases "r = 0")
      case True
      with e old show ?thesis by auto
    next
      case False
      then have "inCache d (r - 1) (k)"
        using rk by (auto simp: inCache_def)
      then have "c (r - 1) (k) = rebuilt d g (Position x0 y0 z0) (r - 1) (k)"
        by (rule c)
      also have "\<dots> = rebuilt d g (Position (x0) (y0 - 1) z0) r k"
        by (simp add: rebuilt_def algebra_simps)
      finally show ?thesis using e old False by auto
    qed
  qed
qed

lemma step_south:
  assumes W: "0 \<le> maxWalkCacheWidth d" and H: "0 \<le> maxWalkCacheHeight d"
    and c: "\<And>r k. inCache d r k \<Longrightarrow> c r k = rebuilt d g (Position x0 y0 z0) r k"
    and rk: "inCache d r k"
  shows "stepCache d g (Position x0 y0 z0) (Position (x0) (y0 + 1) z0) c r k
           = rebuilt d g (Position (x0) (y0 + 1) z0) r k"
proof -
  have mH: "\<bar>maxWalkCacheHeight d\<bar> \<le> maxWalkCacheHeight d" using H by simp
  have e: "stepCache d g (Position x0 y0 z0) (Position (x0) (y0 + 1) z0) c r k =
     (if r = maxWalkCacheHeight d - 1 \<and> k = maxWalkCacheWidth d \<and> 1 \<le> maxWalkCacheHeight d
      then tileWalkable (g (Position x0 y0 z0))
      else if r = 2 * maxWalkCacheHeight d then rebuilt d g (Position (x0) (y0 + 1) z0) r k
      else c (r + 1) (k))"
    using rk W H
    by (auto simp: cache_defs rebuilt_def updateRow_apply [OF mH W] shiftRowsNorth_apply [OF H])
  show ?thesis
  proof (cases "r = maxWalkCacheHeight d - 1 \<and> k = maxWalkCacheWidth d \<and> 1 \<le> maxWalkCacheHeight d")
    case True
    then have "rebuilt d g (Position (x0) (y0 + 1) z0) r k = tileWalkable (g (Position x0 y0 z0))"
      by (simp add: rebuilt_def)
    with e True show ?thesis by simp
  next
    case old: False
    show ?thesis
    proof (cases "r = 2 * maxWalkCacheHeight d")
      case True
      with e old show ?thesis by auto
    next
      case False
      then have "inCache d (r + 1) (k)"
        using rk by (auto simp: inCache_def)
      then have "c (r + 1) (k) = rebuilt d g (Position x0 y0 z0) (r + 1) (k)"
        by (rule c)
      also have "\<dots> = rebuilt d g (Position (x0) (y0 + 1) z0) r k"
        by (simp add: rebuilt_def algebra_simps)
      finally show ?thesis using e old False by auto
    qed
  qed
qed

lemma step_east:
  assumes W: "0 \<le> maxWalkCacheWidth d" and H: "0 \<le> maxWalkCacheHeight d"
    and c: "\<And>r k. inCache d r k \<Longrightarrow> c r k = rebuilt d g (Position x0 y0 z0) r k"
    and rk: "inCache d r k"
  shows "stepCache d g (Position x0 y0 z0) (Position (x0 + 1) (y0) z0) c r k
           = rebuilt d g (Position (x0 + 1) (y0) z0) r k"
proof -
  have mW: "\<bar>maxWalkCacheWidth d\<bar> \<le> maxWalkCacheWidth d" using W by simp
  have e: "stepCache d g (Position x0 y0 z0) (Position (x0 + 1) (y0) z0) c r k =
     (if r = maxWalkCacheHeight d \<and> k = maxWalkCacheWidth d - 1 \<and> 1 \<le> maxWalkCacheWidth d
      then tileWalkable (g (Position x0 y0 z0))
      else if k = 2 * maxWalkCacheWidth d then rebuilt d g (Position (x0 + 1) (y0) z0) r k
      else c (r) (k + 1))"
    using rk W H
    by (auto simp: cache_defs rebuilt_def updateColumn_apply [OF mW H] shiftColumnsWest_apply [OF W])
  show ?thesis
  proof (cases "r = maxWalkCacheHeight d \<and> k = maxWalkCacheWidth d - 1 \<and> 1 \<le> maxWalkCacheWidth d")
    case True
    then have "rebuilt d g (Position (x0 + 1) (y0) z0) r k = tileWalkable (g (Position x0 y0 z0))"
      by (simp add: rebuilt_def)
    with e True show ?thesis by simp
  next
    case old: False
    show ?thesis
    proof (cases "k = 2 * maxWalkCacheWidth d")
      case True
      with e old show ?thesis by auto
    next
      case False
      then have "inCache d (r) (k + 1)"
        using rk by (auto simp: inCache_def)
      then have "c (r) (k + 1) = rebuilt d g (Position x0 y0 z0) (r) (k + 1)"
        by (rule c)
      also have "\<dots> = rebuilt d g (Position (x0 + 1) (y0) z0) r k"
        by (simp add: rebuilt_def algebra_simps)
      finally show ?thesis using e old False by auto
    qed
  qed
qed

lemma step_west:
  assumes W: "0 \<le> maxWalkCacheWidth d" and H: "0 \<le> maxWalkCacheHeight d"
    and c: "\<And>r k. inCache d r k \<Longrightarrow> c r k = rebuilt d g (Position x0 y0 z0) r k"
    and rk: "inCache d r k"
  shows "stepCache d g (Position x0 y0 z0) (Position (x0 - 1) (y0) z0) c r k
           = rebuilt d g (Position (x0 - 1) (y0) z0) r k"
proof -
  have mW: "\<bar>- maxWalkCacheWidth d\<bar> \<le> maxWalkCacheWidth d" using W by simp
  have e: "stepCache d g (Position x0 y0 z0) (Position (x0 - 1) (y0) z0) c r k =
     (if r = maxWalkCacheHeight d \<and> k = maxWalkCacheWidth d + 1 \<and> 1 \<le> maxWalkCacheWidth d
      then tileWalkable (g (Position x0 y0 z0))
      else if k = 0 then rebuilt d g (Position (x0 - 1) (y0) z0) r k
      else c (r) (k - 1))"
    using rk W H
    by (auto simp: cache_defs rebuilt_def updateColumn_apply [OF mW H] shiftColumnsEast_apply [OF W])
  show ?thesis
  proof (cases "r = maxWalkCacheHeight d \<and> k = maxWalkCacheWidth d + 1 \<and> 1 \<le> maxWalkCacheWidth d")
    case True
    then have "rebuilt d g (Position (x0 - 1) (y0) z0) r k = tileWalkable (g (Position x0 y0 z0))"
      by (simp add: rebuilt_def)
    with e True show ?thesis by simp
  next
    case old: False
    show ?thesis
    proof (cases "k = 0")
      case True
      with e old show ?thesis by auto
    next
      case False
      then have "inCache d (r) (k - 1)"
        using rk by (auto simp: inCache_def)
      then have "c (r) (k - 1) = rebuilt d g (Position x0 y0 z0) (r) (k - 1)"
        by (rule c)
      also have "\<dots> = rebuilt d g (Position (x0 - 1) (y0) z0) r k"
        by (simp add: rebuilt_def algebra_simps)
      finally show ?thesis using e old False by auto
    qed
  qed
qed

lemma step_northeast:
  assumes W: "0 \<le> maxWalkCacheWidth d" and H: "0 \<le> maxWalkCacheHeight d"
    and c: "\<And>r k. inCache d r k \<Longrightarrow> c r k = rebuilt d g (Position x0 y0 z0) r k"
    and rk: "inCache d r k"
  shows "stepCache d g (Position x0 y0 z0) (Position (x0 + 1) (y0 - 1) z0) c r k
           = rebuilt d g (Position (x0 + 1) (y0 - 1) z0) r k"
proof -
  have mH: "\<bar>- maxWalkCacheHeight d\<bar> \<le> maxWalkCacheHeight d" using H by simp
  have mW: "\<bar>maxWalkCacheWidth d\<bar> \<le> maxWalkCacheWidth d" using W by simp
  have e: "stepCache d g (Position x0 y0 z0) (Position (x0 + 1) (y0 - 1) z0) c r k =
     (if r = maxWalkCacheHeight d + 1 \<and> k = maxWalkCacheWidth d - 1 \<and> 1 \<le> maxWalkCacheWidth d \<and> 1 \<le> maxWalkCacheHeight d
      then tileWalkable (g (Position x0 y0 z0))
      else if k = 2 * maxWalkCacheWidth d \<or> r = 0 then rebuilt d g (Position (x0 + 1) (y0 - 1) z0) r k
      else c (r - 1) (k + 1))"
    using rk W H
    by (auto simp: cache_defs rebuilt_def updateRow_apply [OF mH W] shiftRowsSouth_apply [OF H] updateColumn_apply [OF mW H] shiftColumnsWest_apply [OF W])
  show ?thesis
  proof (cases "r = maxWalkCacheHeight d + 1 \<and> k = maxWalkCacheWidth d - 1 \<and> 1 \<le> maxWalkCacheWidth d \<and> 1 \<le> maxWalkCacheHeight d")
    case True
    then have "rebuilt d g (Position (x0 + 1) (y0 - 1) z0) r k = tileWalkable (g (Position x0 y0 z0))"
      by (simp add: rebuilt_def)
    with e True show ?thesis by simp
  next
    case old: False
    show ?thesis
    proof (cases "k = 2 * maxWalkCacheWidth d \<or> r = 0")
      case True
      with e old show ?thesis by auto
    next
      case False
      then have "inCache d (r - 1) (k + 1)"
        using rk by (auto simp: inCache_def)
      then have "c (r - 1) (k + 1) = rebuilt d g (Position x0 y0 z0) (r - 1) (k + 1)"
        by (rule c)
      also have "\<dots> = rebuilt d g (Position (x0 + 1) (y0 - 1) z0) r k"
        by (simp add: rebuilt_def algebra_simps)
      finally show ?thesis using e old False by auto
    qed
  qed
qed

lemma step_northwest:
  assumes W: "0 \<le> maxWalkCacheWidth d" and H: "0 \<le> maxWalkCacheHeight d"
    and c: "\<And>r k. inCache d r k \<Longrightarrow> c r k = rebuilt d g (Position x0 y0 z0) r k"
    and rk: "inCache d r k"
  shows "stepCache d g (Position x0 y0 z0) (Position (x0 - 1) (y0 - 1) z0) c r k
           = rebuilt d g (Position (x0 - 1) (y0 - 1) z0) r k"
proof -
  have mH: "\<bar>- maxWalkCacheHeight d\<bar> \<le> maxWalkCacheHeight d" using H by simp
  have mW: "\<bar>- maxWalkCacheWidth d\<bar> \<le> maxWalkCacheWidth d" using W by simp
  have e: "stepCache d g (Position x0 y0 z0) (Position (x0 - 1) (y0 - 1) z0) c r k =
     (if r = maxWalkCacheHeight d + 1 \<and> k = maxWalkCacheWidth d + 1 \<and> 1 \<le> maxWalkCacheWidth d \<and> 1 \<le> maxWalkCacheHeight d
      then tileWalkable (g (Position x0 y0 z0))
      else if k = 0 \<or> r = 0 then rebuilt d g (Position (x0 - 1) (y0 - 1) z0) r k
      else c (r - 1) (k - 1))"
    using rk W H
    by (auto simp: cache_defs rebuilt_def updateRow_apply [OF mH W] shiftRowsSouth_apply [OF H] updateColumn_apply [OF mW H] shiftColumnsEast_apply [OF W])
  show ?thesis
  proof (cases "r = maxWalkCacheHeight d + 1 \<and> k = maxWalkCacheWidth d + 1 \<and> 1 \<le> maxWalkCacheWidth d \<and> 1 \<le> maxWalkCacheHeight d")
    case True
    then have "rebuilt d g (Position (x0 - 1) (y0 - 1) z0) r k = tileWalkable (g (Position x0 y0 z0))"
      by (simp add: rebuilt_def)
    with e True show ?thesis by simp
  next
    case old: False
    show ?thesis
    proof (cases "k = 0 \<or> r = 0")
      case True
      with e old show ?thesis by auto
    next
      case False
      then have "inCache d (r - 1) (k - 1)"
        using rk by (auto simp: inCache_def)
      then have "c (r - 1) (k - 1) = rebuilt d g (Position x0 y0 z0) (r - 1) (k - 1)"
        by (rule c)
      also have "\<dots> = rebuilt d g (Position (x0 - 1) (y0 - 1) z0) r k"
        by (simp add: rebuilt_def algebra_simps)
      finally show ?thesis using e old False by auto
    qed
  qed
qed

lemma step_southeast_value:
  assumes W: "0 \<le> maxWalkCacheWidth d" and H: "1 \<le> maxWalkCacheHeight d"
    and rk: "inCache d r k"
  shows "stepCache d g (Position x0 y0 z0) (Position (x0 + 1) (y0 + 1) z0) c r k =
     (if r = maxWalkCacheHeight d - 1 \<and> k = maxWalkCacheWidth d - 1 \<and> 1 \<le> maxWalkCacheWidth d
      then tileWalkable (g (Position x0 y0 z0))
      else if k = 2 * maxWalkCacheWidth d
           then rebuilt d g (Position (x0 + 1) (y0 + 1) z0) r k
      else if r = 2 * maxWalkCacheHeight d
           then rebuilt d g (Position (x0 + 1) (y0 + 1) z0) r (k + 1)
      else if r = 0 then c 1 k
      else c (r + 1) (k + 1))"
proof -
  have H0: "0 \<le> maxWalkCacheHeight d" using H by simp
  have mH: "\<bar>maxWalkCacheHeight d\<bar> \<le> maxWalkCacheHeight d" using H by simp
  have mW: "\<bar>maxWalkCacheWidth d\<bar> \<le> maxWalkCacheWidth d" using W by simp
  show ?thesis
    using rk W H
    by (auto simp: cache_defs rebuilt_def updateRow_apply shiftRowsNorth_apply
          updateColumn_apply shiftColumnsWest_apply)
qed

lemma step_southwest_value:
  assumes W: "0 \<le> maxWalkCacheWidth d" and H: "1 \<le> maxWalkCacheHeight d"
    and rk: "inCache d r k"
  shows "stepCache d g (Position x0 y0 z0) (Position (x0 - 1) (y0 + 1) z0) c r k =
     (if r = maxWalkCacheHeight d - 1 \<and> k = maxWalkCacheWidth d + 1 \<and> 1 \<le> maxWalkCacheWidth d
      then tileWalkable (g (Position x0 y0 z0))
      else if k = 0
           then rebuilt d g (Position (x0 - 1) (y0 + 1) z0) r k
      else if r = 2 * maxWalkCacheHeight d
           then rebuilt d g (Position (x0 - 1) (y0 + 1) z0) r (k - 1)
      else if r = 0 then c 1 k
      else c (r + 1) (k - 1))"
proof -
  have H0: "0 \<le> maxWalkCacheHeight d" using H by simp
  show ?thesis
    using rk W H
    by (auto simp: cache_defs rebuilt_def updateRow_apply shiftRowsNorth_apply
          updateColumn_apply shiftColumnsEast_apply)
qed

text \<open>
  C2.  The incremental shift after a step to the south-east does not give the grid of a
  rebuild.  The creature stands at (100, 100) with a freshly rebuilt cache of radius 11
  and steps to (101, 101); the map is walkable from \<open>x = 90\<close> eastwards.  The top-left cell
  of the cache stands for the tile (90, 90), walkable, and a rebuild at the new position
  says so; the shifted cache holds there the value of the tile (89, 90), not walkable,
  which stood one row lower before the step: the rows were shifted, the columns of row 0
  were not, since \<open>getDistanceY\<close> is never negative and the rows shifted start at \<open>dy = 1\<close>.
\<close>

theorem onCreatureMove_southeast_stale:
  "\<not> stepCache dims11 wallMap (Position 100 100 7) (Position 101 101 7)
       (updateMapCache dims11 wallMap (Position 100 100 7) blankCache) 0 0 \<and>
   updateMapCache dims11 wallMap (Position 101 101 7) blankCache 0 0"
proof -
  have W: "0 \<le> maxWalkCacheWidth dims11" and H: "1 \<le> maxWalkCacheHeight dims11"
    and H0: "0 \<le> maxWalkCacheHeight dims11"
    by (simp_all add: dims11_def)
  have rk: "inCache dims11 0 0" by (simp add: inCache_def dims11_def)
  have a: "stepCache dims11 wallMap (Position 100 100 7) (Position (100 + 1) (100 + 1) 7)
             (updateMapCache dims11 wallMap (Position 100 100 7) blankCache) 0 0
           = updateMapCache dims11 wallMap (Position 100 100 7) blankCache 1 0"
    using step_southeast_value [OF W H rk, of wallMap 100 100 7
            "updateMapCache dims11 wallMap (Position 100 100 7) blankCache"]
    by (simp add: dims11_def)
  have b: "updateMapCache dims11 wallMap (Position 100 100 7) blankCache 1 0 = False"
    by (simp add: updateMapCache_apply [OF W H0]) (simp add: dims11_def wallMap_def tileWalkable_def)
  have c: "updateMapCache dims11 wallMap (Position 101 101 7) blankCache 0 0 = True"
    by (simp add: updateMapCache_apply [OF W H0]) (simp add: dims11_def wallMap_def tileWalkable_def)
  from a b c show ?thesis by simp
qed

text \<open>
  The step to the south-west fails in the same way: the cell of row 0 and column 1 keeps
  the value of the tile (90, 90) where a rebuild at (99, 101) reads the tile (89, 90).
\<close>

lemma onCreatureMove_southwest_stale:
  "stepCache dims11 wallMap (Position 100 100 7) (Position 99 101 7)
       (updateMapCache dims11 wallMap (Position 100 100 7) blankCache) 0 1 \<and>
   \<not> updateMapCache dims11 wallMap (Position 99 101 7) blankCache 0 1"
proof -
  have W: "0 \<le> maxWalkCacheWidth dims11" and H: "1 \<le> maxWalkCacheHeight dims11"
    and H0: "0 \<le> maxWalkCacheHeight dims11"
    by (simp_all add: dims11_def)
  have rk: "inCache dims11 0 1" by (simp add: inCache_def dims11_def)
  have a: "stepCache dims11 wallMap (Position 100 100 7) (Position (100 - 1) (100 + 1) 7)
             (updateMapCache dims11 wallMap (Position 100 100 7) blankCache) 0 1
           = updateMapCache dims11 wallMap (Position 100 100 7) blankCache 1 1"
    using step_southwest_value [OF W H rk, of wallMap 100 100 7
            "updateMapCache dims11 wallMap (Position 100 100 7) blankCache"]
    by (simp add: dims11_def)
  have b: "updateMapCache dims11 wallMap (Position 100 100 7) blankCache 1 1 = True"
    by (simp add: updateMapCache_apply [OF W H0]) (simp add: dims11_def wallMap_def tileWalkable_def)
  have c: "updateMapCache dims11 wallMap (Position 99 101 7) blankCache 0 1 = False"
    by (simp add: updateMapCache_apply [OF W H0]) (simp add: dims11_def wallMap_def tileWalkable_def)
  from a b c show ?thesis by simp
qed

subsection \<open>Walks without south diagonals\<close>

text \<open>
  Every other lateral step keeps the cache equal to a rebuild, and so does every walk
  made of such steps.
\<close>

lemma nine_steps:
  fixes x0 x1 y0 y1 :: int
  assumes "\<bar>x1 - x0\<bar> \<le> 1" "\<bar>y1 - y0\<bar> \<le> 1" "\<not> (y0 < y1 \<and> x0 \<noteq> x1)"
  shows "(x1 = x0 \<and> y1 = y0) \<or> (x1 = x0 \<and> y1 = y0 - 1) \<or> (x1 = x0 \<and> y1 = y0 + 1)
    \<or> (x1 = x0 + 1 \<and> y1 = y0) \<or> (x1 = x0 - 1 \<and> y1 = y0)
    \<or> (x1 = x0 + 1 \<and> y1 = y0 - 1) \<or> (x1 = x0 - 1 \<and> y1 = y0 - 1)"
proof -
  have a: "x1 = x0 \<or> x1 = x0 + 1 \<or> x1 = x0 - 1" using assms(1) by linarith
  have b: "y1 = y0 \<or> y1 = y0 + 1 \<or> y1 = y0 - 1" using assms(2) by linarith
  from a b assms(3) show ?thesis by auto
qed

lemma stepCache_rebuilt:
  assumes W: "0 \<le> maxWalkCacheWidth d" and H: "0 \<le> maxWalkCacheHeight d"
    and step: "lateralStep p q" and nsd: "\<not> southDiagonal p q"
    and c: "\<And>r k. inCache d r k \<Longrightarrow> c r k = rebuilt d g p r k"
    and rk: "inCache d r k"
  shows "stepCache d g p q c r k = rebuilt d g q r k"
proof -
  obtain x0 y0 z0 where p: "p = Position x0 y0 z0" by (cases p)
  obtain x1 y1 z1 where q: "q = Position x1 y1 z1" by (cases q)
  have z: "z1 = z0" using step by (simp add: lateralStep_def p q)
  have "\<bar>x1 - x0\<bar> \<le> 1" "\<bar>y1 - y0\<bar> \<le> 1" "\<not> (y0 < y1 \<and> x0 \<noteq> x1)"
    using step nsd by (simp_all add: lateralStep_def southDiagonal_def p q)
  then consider "x1 = x0" "y1 = y0" | "x1 = x0" "y1 = y0 - 1" | "x1 = x0" "y1 = y0 + 1"
    | "x1 = x0 + 1" "y1 = y0" | "x1 = x0 - 1" "y1 = y0"
    | "x1 = x0 + 1" "y1 = y0 - 1" | "x1 = x0 - 1" "y1 = y0 - 1"
    using nine_steps [of x1 x0 y1 y0] by blast
  then show ?thesis
  proof cases
    case 1
    then show ?thesis using step_stay [OF W H c [unfolded p] rk] by (simp add: p q z)
  next
    case 2
    then show ?thesis using step_north [OF W H c [unfolded p] rk] by (simp add: p q z)
  next
    case 3
    then show ?thesis using step_south [OF W H c [unfolded p] rk] by (simp add: p q z)
  next
    case 4
    then show ?thesis using step_east [OF W H c [unfolded p] rk] by (simp add: p q z)
  next
    case 5
    then show ?thesis using step_west [OF W H c [unfolded p] rk] by (simp add: p q z)
  next
    case 6
    then show ?thesis using step_northeast [OF W H c [unfolded p] rk] by (simp add: p q z)
  next
    case 7
    then show ?thesis using step_northwest [OF W H c [unfolded p] rk] by (simp add: p q z)
  qed
qed

lemma walkCache_invariant:
  assumes W: "0 \<le> maxWalkCacheWidth d" and H: "0 \<le> maxWalkCacheHeight d"
  shows "soundPath p qs \<Longrightarrow> (\<And>r k. inCache d r k \<Longrightarrow> c r k = rebuilt d g p r k)
    \<Longrightarrow> inCache d r k \<Longrightarrow> walkCache d g p qs c r k = rebuilt d g (last (p # qs)) r k"
proof (induction qs arbitrary: p c)
  case Nil
  then show ?case by simp
next
  case (Cons q qs)
  have s: "lateralStep p q" "\<not> southDiagonal p q" "soundPath q qs"
    using Cons.prems(1) by simp_all
  have inv: "stepCache d g p q c r k = rebuilt d g q r k" if "inCache d r k" for r k
    using stepCache_rebuilt [OF W H s(1) s(2) Cons.prems(2) that] .
  show ?case
    using Cons.IH [OF s(3) inv Cons.prems(3)] by simp
qed

lemma walkCache_rebuilt:
  assumes "0 \<le> maxWalkCacheWidth d" and "0 \<le> maxWalkCacheHeight d"
    and "soundPath p qs" and "inCache d r k"
  shows "walkCache d g p qs (updateMapCache d g p c) r k
           = updateMapCache d g (last (p # qs)) c' r k"
proof -
  have "walkCache d g p qs (updateMapCache d g p c) r k = rebuilt d g (last (p # qs)) r k"
    by (rule walkCache_invariant [OF assms(1,2,3) _ assms(4)])
       (simp add: updateMapCache_rebuilt [OF assms(1,2)])
  then show ?thesis
    using assms(4) by (simp add: updateMapCache_rebuilt [OF assms(1,2)])
qed

end
